theory Spec2Isabelle
  imports Main "HOL-Library.AList" "HOL-Library.Char_ord" "HOL-Library.List_Lexorder"
begin

section \<open>A rotating log-file writer (package glog, type RotateLog)\<close>

text \<open>
  The Go source keeps one open file and a byte counter, rolls the file over to a
  timestamped backup when a write would make it larger than the maximum, and has a
  background worker that removes and compresses old backups. The embedding below follows
  the source function by function. Everything the source asks of the operating system is
  a call on an explicit \<open>world\<close>: the files, the clock, the calls issued so far, and an
  oracle that says which calls fail.
\<close>

subsection \<open>Integers, bytes, errors\<close>

type_synonym path = string
type_synonym bytes = string

text \<open>
  Go's \<open>int\<close> (on a 64-bit platform) and \<open>int64\<close> are modelled as \<open>int\<close> with the
  wrap-around of every arithmetic operation of the source written out.
\<close>

definition wrap64 :: "int \<Rightarrow> int" where
  "wrap64 x = (x + 2 ^ 63) mod 2 ^ 64 - 2 ^ 63"

datatype error =
    WriteTooLong int int
  | NotExist
  | OSError string
  | Errorf string error
  | Panic string

text \<open>\<open>os.IsNotExist\<close>.\<close>

definition IsNotExist :: "error \<Rightarrow> bool" where
  "IsNotExist e = (e = NotExist)"

subsection \<open>Constants of the package\<close>

definition defaultMaxSize :: int where
  "defaultMaxSize = 100"

definition defaultFileMode :: nat where
  "defaultFileMode = 384"

definition compressSuffix :: string where
  "compressSuffix = ''.gz''"

definition megabyte :: int where
  "megabyte = 1024 * 1024"

text \<open>\<open>24 * time.Hour\<close> in nanoseconds.\<close>

definition day_ns :: int where
  "day_ns = 24 * 3600 * 1000000000"

subsection \<open>Strings and paths (Go's strings and path/filepath on Unix)\<close>

definition HasPrefix :: "string \<Rightarrow> string \<Rightarrow> bool" where
  "HasPrefix s p = (take (length p) s = p)"

definition HasSuffix :: "string \<Rightarrow> string \<Rightarrow> bool" where
  "HasSuffix s x = (length x \<le> length s \<and> drop (length s - length x) s = x)"

definition isSep :: "char \<Rightarrow> bool" where
  "isSep c = (c = CHR ''/'')"

fun splitSep :: "string \<Rightarrow> string list" where
  "splitSep [] = [[]]"
| "splitSep (c # cs) =
     (if isSep c then [] # splitSep cs
      else (case splitSep cs of [] \<Rightarrow> [[c]] | x # xs \<Rightarrow> (c # x) # xs))"

fun joinSep :: "string list \<Rightarrow> string" where
  "joinSep [] = []"
| "joinSep [x] = x"
| "joinSep (x # y # ys) = x @ ''/'' @ joinSep (y # ys)"

text \<open>
  One element of a path seen by \<open>filepath.Clean\<close>: empty elements and \<open>.\<close> vanish,
  \<open>..\<close> cancels the element before it, is dropped at the root, and is kept at the
  start of a relative path.
\<close>

definition cleanStep :: "bool \<Rightarrow> string list \<Rightarrow> string \<Rightarrow> string list" where
  "cleanStep rooted st c =
     (if c = [] \<or> c = ''.'' then st
      else if c = ''..'' then
        (if st \<noteq> [] \<and> last st \<noteq> ''..'' then butlast st
         else if rooted then st
         else st @ [c])
      else st @ [c])"

definition filepath_Clean :: "path \<Rightarrow> path" where
  "filepath_Clean p =
     (let rooted = (p \<noteq> [] \<and> isSep (hd p));
          body = joinSep (foldl (cleanStep rooted) [] (splitSep p))
      in if rooted then ''/'' @ body
         else if body = [] then ''.''
         else body)"

text \<open>The part of a path up to and including its last separator, and the part after it.\<close>

definition uptoLastSep :: "path \<Rightarrow> path" where
  "uptoLastSep p = rev (dropWhile (\<lambda>c. \<not> isSep c) (rev p))"

definition afterLastSep :: "path \<Rightarrow> path" where
  "afterLastSep p = rev (takeWhile (\<lambda>c. \<not> isSep c) (rev p))"

definition filepath_Dir :: "path \<Rightarrow> path" where
  "filepath_Dir p = filepath_Clean (uptoLastSep p)"

definition filepath_Base :: "path \<Rightarrow> path" where
  "filepath_Base p =
     (if p = [] then ''.''
      else (let b = afterLastSep (rev (dropWhile isSep (rev p)))
            in if b = [] then ''/'' else b))"

definition filepath_Ext :: "path \<Rightarrow> string" where
  "filepath_Ext p =
     (let l = afterLastSep p
      in if CHR ''.'' \<in> set l
         then CHR ''.'' # rev (takeWhile (\<lambda>c. c \<noteq> CHR ''.'') (rev l))
         else [])"

fun filepath_Join :: "string list \<Rightarrow> path" where
  "filepath_Join [] = []"
| "filepath_Join (e # es) =
     (if e = [] then filepath_Join es else filepath_Clean (joinSep (e # es)))"

subsection \<open>The operating system\<close>

datatype node = File (content: bytes) (perm: nat) | Directory

record fileInfo =
  Size :: int
  Mode :: nat
  IsDir :: bool

definition infoOf :: "node \<Rightarrow> fileInfo" where
  "infoOf n = (case n of
       File c m \<Rightarrow> \<lparr>Size = int (length c), Mode = m, IsDir = False\<rparr>
     | Directory \<Rightarrow> \<lparr>Size = 0, Mode = 493, IsDir = True\<rparr>)"

text \<open>
  The calls the source issues. An open file is named by the path it was opened at: the
  writer is the only one that renames its file, and it closes the file first.
\<close>

datatype call =
    MkdirAll path
  | Stat path
  | Rename path path
  | OpenCreate path nat
  | OpenAppend path
  | OpenRead path
  | WriteTo path bytes
  | CloseFile path
  | Remove path
  | ReadDir path
  | GzipCopy path path
  | GzipClose path

text \<open>
  \<open>files\<close> maps cleaned paths to nodes; \<open>clock\<close> is \<open>time.Now()\<close> in nanoseconds;
  \<open>trace\<close> is the list of calls issued so far; \<open>faults\<close> decides, from the calls so
  far and the call at hand, whether the call fails and with which error; \<open>short\<close> is
  how many bytes a failing write or copy gets out before it fails.
\<close>

record world =
  files :: "(path \<times> node) list"
  clock :: int
  trace :: "call list"
  faults :: "call list \<Rightarrow> call \<Rightarrow> error option"
  short :: "call list \<Rightarrow> nat"

text \<open>
  What the source takes from the Go runtime and library without the model computing it:
  \<open>os.TempDir()\<close>, \<open>os.Args[0]\<close>, \<open>Time.Format\<close> and \<open>time.Parse\<close> with the layout
  \<open>2006-01-02 15:04:05\<close> (the flag of \<open>formatTime\<close> is \<open>local\<close>), and gzip.
\<close>

record env =
  tempDir :: string
  arg0 :: string
  formatTime :: "bool \<Rightarrow> int \<Rightarrow> string"
  parseTime :: "string \<Rightarrow> int option"
  gzip :: "bytes \<Rightarrow> bytes"

definition syscall :: "call \<Rightarrow> world \<Rightarrow> error option \<times> world" where
  "syscall c w = (faults w (trace w) c, w\<lparr>trace := trace w @ [c]\<rparr>)"

definition lookup :: "world \<Rightarrow> path \<Rightarrow> node option" where
  "lookup w p = map_of (files w) (filepath_Clean p)"

definition store :: "path \<Rightarrow> node \<Rightarrow> world \<Rightarrow> world" where
  "store p n w = w\<lparr>files := AList.update (filepath_Clean p) n (files w)\<rparr>"

definition unlink :: "path \<Rightarrow> world \<Rightarrow> world" where
  "unlink p w = w\<lparr>files := AList.delete (filepath_Clean p) (files w)\<rparr>"

definition os_MkdirAll :: "path \<Rightarrow> world \<Rightarrow> error option \<times> world" where
  "os_MkdirAll p w =
     (case syscall (MkdirAll p) w of
        (Some e, w') \<Rightarrow> (Some e, w')
      | (None, w') \<Rightarrow>
          (case lookup w' p of
             None \<Rightarrow> (None, store p Directory w')
           | Some Directory \<Rightarrow> (None, w')
           | Some (File c m) \<Rightarrow> (Some (OSError ''not a directory''), w')))"

text \<open>
  \<open>os.Stat\<close>. A path that is not in \<open>files\<close> does not exist; every other
  failure, a file in the place of a directory on the way among them, comes from
  \<open>faults\<close>.
\<close>

definition os_Stat :: "path \<Rightarrow> world \<Rightarrow> (error + fileInfo) \<times> world" where
  "os_Stat p w =
     (case syscall (Stat p) w of
        (Some e, w') \<Rightarrow> (Inl e, w')
      | (None, w') \<Rightarrow>
          (case lookup w' p of
             None \<Rightarrow> (Inl NotExist, w')
           | Some n \<Rightarrow> (Inr (infoOf n), w')))"

definition os_Rename :: "path \<Rightarrow> path \<Rightarrow> world \<Rightarrow> error option \<times> world" where
  "os_Rename old new w =
     (case syscall (Rename old new) w of
        (Some e, w') \<Rightarrow> (Some e, w')
      | (None, w') \<Rightarrow>
          (case lookup w' old of
             None \<Rightarrow> (Some NotExist, w')
           | Some n \<Rightarrow> (None, store new n (unlink old w'))))"

text \<open>
  \<open>os.OpenFile(name, O_CREATE|O_WRONLY|O_TRUNC, mode)\<close>. A file that exists keeps
  its mode; a new one gets the mode asked for, the umask of the process taken to clear
  none of its bits.
\<close>

definition os_OpenCreate :: "path \<Rightarrow> nat \<Rightarrow> world \<Rightarrow> error option \<times> world" where
  "os_OpenCreate p m w =
     (case syscall (OpenCreate p m) w of
        (Some e, w') \<Rightarrow> (Some e, w')
      | (None, w') \<Rightarrow>
          (case lookup w' p of
             None \<Rightarrow> (None, store p (File [] m) w')
           | Some (File c m') \<Rightarrow> (None, store p (File [] m') w')
           | Some Directory \<Rightarrow> (Some (OSError ''is a directory''), w')))"

text \<open>\<open>os.OpenFile(name, O_APPEND+O_WRONLY, mode)\<close>.\<close>

definition os_OpenAppend :: "path \<Rightarrow> world \<Rightarrow> error option \<times> world" where
  "os_OpenAppend p w =
     (case syscall (OpenAppend p) w of
        (Some e, w') \<Rightarrow> (Some e, w')
      | (None, w') \<Rightarrow>
          (case lookup w' p of
             None \<Rightarrow> (Some NotExist, w')
           | Some (File c m) \<Rightarrow> (None, w')
           | Some Directory \<Rightarrow> (Some (OSError ''is a directory''), w')))"

definition os_Open :: "path \<Rightarrow> world \<Rightarrow> error option \<times> world" where
  "os_Open p w =
     (case syscall (OpenRead p) w of
        (Some e, w') \<Rightarrow> (Some e, w')
      | (None, w') \<Rightarrow>
          (case lookup w' p of
             None \<Rightarrow> (Some NotExist, w')
           | Some n \<Rightarrow> (None, w')))"

text \<open>
  \<open>(*os.File).Write\<close>: the bytes go to the end of the file. A failing write has put
  out \<open>n\<close> bytes, \<open>n\<close> at most the length of the payload.
\<close>

definition appendTo :: "path \<Rightarrow> bytes \<Rightarrow> world \<Rightarrow> world" where
  "appendTo h b w =
     (case lookup w h of
        Some (File c m) \<Rightarrow> store h (File (c @ b) m) w
      | _ \<Rightarrow> w)"

definition file_Write :: "path \<Rightarrow> bytes \<Rightarrow> world \<Rightarrow> (nat \<times> error option) \<times> world" where
  "file_Write h p w =
     (case syscall (WriteTo h p) w of
        (Some e, w') \<Rightarrow>
          (let n = min (short w (trace w)) (length p)
           in ((n, Some e), appendTo h (take n p) w'))
      | (None, w') \<Rightarrow>
          (case lookup w' h of
             Some (File c m) \<Rightarrow> ((length p, None), appendTo h p w')
           | _ \<Rightarrow> ((0, Some (OSError ''bad file descriptor'')), w')))"

definition file_Close :: "path \<Rightarrow> world \<Rightarrow> error option \<times> world" where
  "file_Close h w = syscall (CloseFile h) w"

definition os_Remove :: "path \<Rightarrow> world \<Rightarrow> error option \<times> world" where
  "os_Remove p w =
     (case syscall (Remove p) w of
        (Some e, w') \<Rightarrow> (Some e, w')
      | (None, w') \<Rightarrow>
          (case lookup w' p of
             None \<Rightarrow> (Some NotExist, w')
           | Some n \<Rightarrow> (None, unlink p w')))"

text \<open>\<open>ioutil.ReadDir\<close>: the entries of the directory, sorted by name.\<close>

definition entriesOf :: "path \<Rightarrow> world \<Rightarrow> (string \<times> node) list" where
  "entriesOf d w =
     sort_key fst
       (map (\<lambda>(p, n). (filepath_Base p, n))
          (filter (\<lambda>(p, n). p \<noteq> filepath_Clean d \<and> filepath_Dir p = filepath_Clean d)
             (files w)))"

definition ioutil_ReadDir :: "path \<Rightarrow> world \<Rightarrow> (error + (string \<times> node) list) \<times> world" where
  "ioutil_ReadDir d w =
     (case syscall (ReadDir d) w of
        (Some e, w') \<Rightarrow> (Inl e, w')
      | (None, w') \<Rightarrow>
          (case lookup w' d of
             Some Directory \<Rightarrow> (Inr (entriesOf d w'), w')
           | Some (File c m) \<Rightarrow> (Inl (OSError ''not a directory''), w')
           | None \<Rightarrow> (Inl NotExist, w')))"

text \<open>
  \<open>io.Copy(gz, f)\<close> and \<open>gz.Close()\<close>: after both, the destination holds the gzip of
  the source; a failure of either leaves a part of it there.
\<close>

definition readAll :: "path \<Rightarrow> world \<Rightarrow> bytes" where
  "readAll p w = (case lookup w p of Some (File c m) \<Rightarrow> c | _ \<Rightarrow> [])"

definition setContent :: "path \<Rightarrow> bytes \<Rightarrow> world \<Rightarrow> world" where
  "setContent p b w =
     (case lookup w p of
        Some (File c m) \<Rightarrow> store p (File b m) w
      | _ \<Rightarrow> w)"

definition gzip_Copy :: "env \<Rightarrow> path \<Rightarrow> path \<Rightarrow> world \<Rightarrow> error option \<times> world" where
  "gzip_Copy E src dst w =
     (case syscall (GzipCopy src dst) w of
        (Some e, w') \<Rightarrow>
          (Some e, setContent dst (take (short w (trace w)) (gzip E (readAll src w'))) w')
      | (None, w') \<Rightarrow> (None, w'))"

definition gzip_Close :: "env \<Rightarrow> path \<Rightarrow> path \<Rightarrow> world \<Rightarrow> error option \<times> world" where
  "gzip_Close E src dst w =
     (case syscall (GzipClose dst) w of
        (Some e, w') \<Rightarrow>
          (Some e, setContent dst (take (short w (trace w)) (gzip E (readAll src w'))) w')
      | (None, w') \<Rightarrow> (None, setContent dst (gzip E (readAll src w')) w'))"

subsection \<open>The writer\<close>

text \<open>
  The fields of \<open>RotateLog\<close>. The mutex is not modelled: every function below runs
  alone. \<open>startMill\<close> is whether the \<open>sync.Once\<close> has started the worker; \<open>millCh\<close> is
  the number of signals waiting in the channel, whose capacity is one. \<open>file\<close> is the
  open file, if any.
\<close>

record RotateLog =
  Filename :: string
  MaxBackUps :: int
  MaxSize :: int
  MaxAge :: int
  RotateByTimeOrSize :: string
  Compress :: bool
  LocalTime :: bool
  size :: int
  "file" :: "path option"
  startMill :: bool
  millCh :: nat

record logInfo =
  timestamp :: int
  Name :: string

text \<open>\<open>max\<close>: the maximum size in bytes of the log file before rolling.\<close>

definition max_size :: "RotateLog \<Rightarrow> int" where
  "max_size r =
     (if MaxSize r = 0 then wrap64 (defaultMaxSize * megabyte)
      else wrap64 (MaxSize r * megabyte))"

definition filename :: "env \<Rightarrow> RotateLog \<Rightarrow> path" where
  "filename E r =
     (if Filename r \<noteq> [] then Filename r
      else (let name = filepath_Base (arg0 E) @ ''_rotate.log''
            in filepath_Join [tempDir E, name]))"

definition dir :: "RotateLog \<Rightarrow> path" where
  "dir r = filepath_Dir (Filename r)"

text \<open>
  \<open>backupName\<close>. The slice \<open>filename[:len(filename)-len(ext)]\<close> is in range, because
  the extension is a suffix of the base name or empty.
\<close>

definition backupName :: "env \<Rightarrow> path \<Rightarrow> bool \<Rightarrow> int \<Rightarrow> path" where
  "backupName E name local t =
     (let d = filepath_Dir name;
          fname = filepath_Base name;
          ext = filepath_Ext name;
          prefix = take (length fname - length ext) fname;
          stamp = formatTime E local t
      in filepath_Join [d, prefix @ ''-'' @ stamp @ ext])"

text \<open>
  \<open>mill\<close>: start the worker once, then send on the channel unless a signal is already
  waiting there.
\<close>

definition mill :: "RotateLog \<Rightarrow> RotateLog" where
  "mill r =
     (let r1 = (if startMill r then r else r\<lparr>startMill := True, millCh := 0\<rparr>)
      in if millCh r1 < 1 then r1\<lparr>millCh := millCh r1 + 1\<rparr> else r1)"

definition close_file :: "RotateLog \<Rightarrow> world \<Rightarrow> error option \<times> RotateLog \<times> world" where
  "close_file r w =
     (case file r of
        None \<Rightarrow> (None, r, w)
      | Some h \<Rightarrow>
          (case file_Close h w of (err, w') \<Rightarrow> (err, r\<lparr>file := None\<rparr>, w')))"

definition createNew ::
  "path \<Rightarrow> nat \<Rightarrow> RotateLog \<Rightarrow> world \<Rightarrow> error option \<times> RotateLog \<times> world" where
  "createNew name m r w =
     (case os_OpenCreate name m w of
        (Some e, w') \<Rightarrow> (Some (Errorf ''can't open new logfile'' e), r, w')
      | (None, w') \<Rightarrow> (None, r\<lparr>file := Some name, size := 0\<rparr>, w'))"

definition openNew :: "env \<Rightarrow> RotateLog \<Rightarrow> world \<Rightarrow> error option \<times> RotateLog \<times> world" where
  "openNew E r w =
     (case os_MkdirAll (dir r) w of
        (Some e, w1) \<Rightarrow> (Some e, r, w1)
      | (None, w1) \<Rightarrow>
          (let name = filename E r
           in case os_Stat name w1 of
                (Inr info, w2) \<Rightarrow>
                  (let newName = backupName E name (LocalTime r) (clock w2)
                   in case os_Rename name newName w2 of
                        (Some e, w3) \<Rightarrow> (Some (Errorf ''can't rename log file'' e), r, w3)
                      | (None, w3) \<Rightarrow> createNew name (Mode info) r w3)
              | (Inl e, w2) \<Rightarrow> createNew name defaultFileMode r w2))"

definition rotate :: "env \<Rightarrow> RotateLog \<Rightarrow> world \<Rightarrow> error option \<times> RotateLog \<times> world" where
  "rotate E r w =
     (case close_file r w of
        (Some e, r1, w1) \<Rightarrow> (Some e, r1, w1)
      | (None, r1, w1) \<Rightarrow>
          (case openNew E r1 w1 of
             (Some e, r2, w2) \<Rightarrow> (Some e, r2, w2)
           | (None, r2, w2) \<Rightarrow> (None, mill r2, w2)))"

definition openExistingOrNew ::
  "env \<Rightarrow> nat \<Rightarrow> RotateLog \<Rightarrow> world \<Rightarrow> error option \<times> RotateLog \<times> world" where
  "openExistingOrNew E writeLen r w =
     (let r0 = mill r; fname = filename E r0
      in case os_Stat fname w of
           (Inl e, w1) \<Rightarrow>
             (if IsNotExist e then openNew E r0 w1
              else (Some (Errorf ''error getting log file info'' e), r0, w1))
         | (Inr info, w1) \<Rightarrow>
             (if wrap64 (Size info + int writeLen) \<ge> max_size r0 then rotate E r0 w1
              else (case os_OpenAppend fname w1 of
                      (Some e, w2) \<Rightarrow> openNew E r0 w2
                    | (None, w2) \<Rightarrow> (None, r0\<lparr>file := Some fname, size := Size info\<rparr>, w2))))"

text \<open>
  \<open>Write\<close>. The length of a Go slice fits in an \<open>int\<close>, so \<open>int64(len(p))\<close> is the
  length. The result is the pair \<open>(n, err)\<close>, the writer and the world.
\<close>

definition Write ::
  "env \<Rightarrow> bytes \<Rightarrow> RotateLog \<Rightarrow> world \<Rightarrow> (nat \<times> error option) \<times> RotateLog \<times> world" where
  "Write E p r w =
     (let writeLen = int (length p)
      in if writeLen > max_size r
         then ((0, Some (WriteTooLong writeLen (max_size r))), r, w)
         else
           (case (if file r = None then openExistingOrNew E (length p) r w
                  else (None, r, w)) of
              (Some e, r1, w1) \<Rightarrow> ((0, Some e), r1, w1)
            | (None, r1, w1) \<Rightarrow>
                (case (if wrap64 (size r1 + writeLen) > max_size r1 then rotate E r1 w1
                       else (None, r1, w1)) of
                   (Some e, r2, w2) \<Rightarrow> ((0, Some e), r2, w2)
                 | (None, r2, w2) \<Rightarrow>
                     (case file r2 of
                        None \<Rightarrow> ((0, Some (OSError ''invalid argument'')), r2, w2)
                      | Some h \<Rightarrow>
                          (case file_Write h p w2 of
                             ((n, err), w3) \<Rightarrow>
                               ((n, err), r2\<lparr>size := wrap64 (size r2 + int n)\<rparr>, w3))))))"

subsection \<open>The maintenance worker\<close>

text \<open>
  \<open>timeFromName\<close>. When prefix and extension overlap in the name, the slice
  \<open>filename[len(prefix) : len(filename)-len(ext)]\<close> is out of range and Go panics.
\<close>

definition timeFromName :: "env \<Rightarrow> string \<Rightarrow> string \<Rightarrow> string \<Rightarrow> error + int" where
  "timeFromName E fname prefix ext =
     (if \<not> HasPrefix fname prefix then Inl (OSError ''mismatched prefix'')
      else if \<not> HasSuffix fname ext then Inl (OSError ''mismatched extension'')
      else if length fname - length ext < length prefix
        then Inl (Panic ''slice bounds out of range'')
      else (case parseTime E (drop (length prefix) (take (length fname - length ext) fname)) of
              None \<Rightarrow> Inl (OSError ''parsing time'')
            | Some t \<Rightarrow> Inr t))"

definition prefixAndExt :: "env \<Rightarrow> RotateLog \<Rightarrow> string \<times> string" where
  "prefixAndExt E r =
     (let fname = filepath_Base (filename E r);
          ext = filepath_Ext fname;
          prefix = take (length fname - length ext) fname @ ''-''
      in (prefix, ext))"

text \<open>
  \<open>sort.Sort(byFormatTime(logFiles))\<close>, most recent first. \<open>Less\<close> compares the
  timestamps only. The model is the insertion sort that Go runs on short slices; on
  longer ones Go leaves the order of entries with equal timestamps open.
\<close>

fun insertByTime :: "logInfo \<Rightarrow> logInfo list \<Rightarrow> logInfo list" where
  "insertByTime x [] = [x]"
| "insertByTime x (y # ys) =
     (if timestamp x > timestamp y then x # y # ys else y # insertByTime x ys)"

definition sortByFormatTime :: "logInfo list \<Rightarrow> logInfo list" where
  "sortByFormatTime xs = foldl (\<lambda>acc x. insertByTime x acc) [] xs"

definition isPanic :: "error + 'a \<Rightarrow> bool" where
  "isPanic x = (case x of Inl (Panic m) \<Rightarrow> True | _ \<Rightarrow> False)"

definition found :: "string \<Rightarrow> error + int \<Rightarrow> logInfo list" where
  "found n x = (case x of Inr t \<Rightarrow> [\<lparr>timestamp = t, Name = n\<rparr>] | Inl e \<Rightarrow> [])"

text \<open>The loop of \<open>oldLogFiles\<close> over the directory entries; \<open>Inl\<close> is a panic.\<close>

fun scanEntries ::
  "env \<Rightarrow> string \<Rightarrow> string \<Rightarrow> (string \<times> node) list \<Rightarrow> logInfo list \<Rightarrow> error + logInfo list" where
  "scanEntries E prefix ext [] logFiles = Inr logFiles"
| "scanEntries E prefix ext ((n, nd) # es) logFiles =
     (if nd = Directory then scanEntries E prefix ext es logFiles
      else (let t1 = timeFromName E n prefix ext
            in if isPanic t1 then Inl (Panic ''slice bounds out of range'')
               else (let t2 = timeFromName E n prefix (ext @ compressSuffix)
                     in if isPanic t2 then Inl (Panic ''slice bounds out of range'')
                        else scanEntries E prefix ext es (logFiles @ found n t1 @ found n t2))))"

definition oldLogFiles :: "env \<Rightarrow> RotateLog \<Rightarrow> world \<Rightarrow> (error + logInfo list) \<times> world" where
  "oldLogFiles E r w =
     (case ioutil_ReadDir (dir r) w of
        (Inl e, w1) \<Rightarrow> (Inl (Errorf ''can't read log file directory'' e), w1)
      | (Inr entries, w1) \<Rightarrow>
          (case prefixAndExt E r of
             (prefix, ext) \<Rightarrow>
               (case scanEntries E prefix ext entries [] of
                  Inl e \<Rightarrow> (Inl e, w1)
                | Inr logFiles \<Rightarrow> (Inr (sortByFormatTime logFiles), w1))))"

text \<open>
  \<open>compressLogFile\<close>. The result of the function has no name, and its variable \<open>err\<close>
  is assigned by the open, the stat and the open of the destination only: the errors of
  the copy and of the three closes are bound to variables of their own \<open>if\<close> statements.
  So the deferred function, which tests \<open>err\<close>, runs with the value that \<open>err\<close> has
  after the destination was opened. The deferred calls run last in, first out.
\<close>

definition deferred :: "error option \<Rightarrow> path \<Rightarrow> path \<Rightarrow> world \<Rightarrow> world" where
  "deferred err src dst w =
     (let w1 = (case err of None \<Rightarrow> w | Some e \<Rightarrow> snd (os_Remove dst w));
          w2 = snd (file_Close dst w1)
      in snd (file_Close src w2))"

definition compressLogFile :: "env \<Rightarrow> path \<Rightarrow> path \<Rightarrow> world \<Rightarrow> error option \<times> world" where
  "compressLogFile E src dst w =
     (case os_Open src w of
        (Some e, w1) \<Rightarrow> (Some (Errorf ''failed to open log file'' e), w1)
      | (None, w1) \<Rightarrow>
     (case os_Stat src w1 of
        (Inl e, w2) \<Rightarrow> (Some (Errorf ''failed to stat log file'' e), snd (file_Close src w2))
      | (Inr fi, w2) \<Rightarrow>
     (case os_OpenCreate dst (Mode fi) w2 of
        (Some e, w3) \<Rightarrow>
          (Some (Errorf ''failed to open compressed log file'' e), snd (file_Close src w3))
      | (err, w3) \<Rightarrow>
     (case gzip_Copy E src dst w3 of
        (Some e, w4) \<Rightarrow> (Some e, deferred err src dst w4)
      | (None, w4) \<Rightarrow>
     (case gzip_Close E src dst w4 of
        (Some e, w5) \<Rightarrow> (Some e, deferred err src dst w5)
      | (None, w5) \<Rightarrow>
     (case file_Close dst w5 of
        (Some e, w6) \<Rightarrow> (Some e, deferred err src dst w6)
      | (None, w6) \<Rightarrow>
     (case file_Close src w6 of
        (Some e, w7) \<Rightarrow> (Some e, deferred err src dst w7)
      | (None, w7) \<Rightarrow> (None, deferred err src dst w7))))))))"

text \<open>The key of the map \<open>preserved\<close>: the name without the compressed suffix.\<close>

definition stripGz :: "string \<Rightarrow> string" where
  "stripGz fn =
     (if HasSuffix fn compressSuffix then take (length fn - length compressSuffix) fn else fn)"

text \<open>
  The three loops of \<open>millRunOnce\<close> that mark files, with the slices they append to.
  The map \<open>preserved\<close> is the list of its keys.
\<close>

fun countLoop ::
  "int \<Rightarrow> logInfo list \<Rightarrow> string list \<Rightarrow> logInfo list \<Rightarrow> logInfo list
     \<Rightarrow> logInfo list \<times> logInfo list" where
  "countLoop k [] preserved remove remaining = (remove, remaining)"
| "countLoop k (f # fs) preserved remove remaining =
     (let preserved' = List.insert (stripGz (Name f)) preserved
      in if int (length preserved') > k
         then countLoop k fs preserved' (remove @ [f]) remaining
         else countLoop k fs preserved' remove (remaining @ [f]))"

fun ageLoop ::
  "int \<Rightarrow> logInfo list \<Rightarrow> logInfo list \<Rightarrow> logInfo list \<Rightarrow> logInfo list \<times> logInfo list" where
  "ageLoop cutOff [] remove remaining = (remove, remaining)"
| "ageLoop cutOff (f # fs) remove remaining =
     (if timestamp f < cutOff
      then ageLoop cutOff fs (remove @ [f]) remaining
      else ageLoop cutOff fs remove (remaining @ [f]))"

fun compressLoop :: "logInfo list \<Rightarrow> logInfo list \<Rightarrow> logInfo list" where
  "compressLoop [] compress = compress"
| "compressLoop (f # fs) compress =
     (if \<not> HasSuffix (Name f) compressSuffix
      then compressLoop fs (compress @ [f])
      else compressLoop fs compress)"

text \<open>
  The marking of \<open>millRunOnce\<close>, lines 247 to 289: from the sorted backups and the
  time, the files to remove and the files to compress. In the count branch the slice
  \<open>remaining\<close> is built and then dropped: \<open>files\<close> stays as it was. In the age
  branch \<open>files\<close> becomes \<open>remaining\<close>.
\<close>

definition cutOffOf :: "RotateLog \<Rightarrow> int \<Rightarrow> int" where
  "cutOffOf r now = (let diff = wrap64 (wrap64 day_ns * MaxAge r) in now + wrap64 (- 1 * diff))"

definition marking :: "RotateLog \<Rightarrow> int \<Rightarrow> logInfo list \<Rightarrow> logInfo list \<times> logInfo list" where
  "marking r now files0 =
     (let remove1 =
            (if MaxBackUps r > 0 \<and> MaxBackUps r < int (length files0)
             then fst (countLoop (MaxBackUps r) files0 [] [] [])
             else []);
          (remove2, files1) =
            (if MaxAge r > 0 then ageLoop (cutOffOf r now) files0 remove1 []
             else (remove1, files0));
          compress = (if Compress r then compressLoop files1 [] else [])
      in (remove2, compress))"

text \<open>The two loops that act on the files, lines 291 to 304.\<close>

fun removeLoop :: "path \<Rightarrow> logInfo list \<Rightarrow> error option \<Rightarrow> world \<Rightarrow> error option \<times> world" where
  "removeLoop d [] err w = (err, w)"
| "removeLoop d (f # fs) err w =
     (case os_Remove (filepath_Join [d, Name f]) w of
        (errRemove, w') \<Rightarrow>
          removeLoop d fs (if err = None \<and> errRemove \<noteq> None then errRemove else err) w')"

fun compressFiles ::
  "env \<Rightarrow> path \<Rightarrow> logInfo list \<Rightarrow> error option \<Rightarrow> world \<Rightarrow> error option \<times> world" where
  "compressFiles E d [] err w = (err, w)"
| "compressFiles E d (f # fs) err w =
     (let fn = filepath_Join [d, Name f]
      in case compressLogFile E fn (fn @ compressSuffix) w of
           (errCompress, w') \<Rightarrow>
             compressFiles E d fs
               (if err = None \<and> errCompress \<noteq> None then errCompress else err) w')"

text \<open>
  \<open>millRunOnce\<close>. A failed listing makes the pass return nil; a panic of the listing
  is the result \<open>Some (Panic ...)\<close>.
\<close>

definition millRunOnce :: "env \<Rightarrow> RotateLog \<Rightarrow> world \<Rightarrow> error option \<times> world" where
  "millRunOnce E r w =
     (if MaxSize r = 0 \<and> MaxAge r = 0 \<and> \<not> Compress r then (None, w)
      else (case oldLogFiles E r w of
              (Inl e, w1) \<Rightarrow> (if isPanic (Inl e :: error + unit) then (Some e, w1) else (None, w1))
            | (Inr files0, w1) \<Rightarrow>
                (case marking r (clock w1) files0 of
                   (remove, compress) \<Rightarrow>
                     (case removeLoop (dir r) remove None w1 of
                        (err, w2) \<Rightarrow> compressFiles E (dir r) compress err w2))))"

subsection \<open>Results that differ in one field only\<close>

text \<open>The same result with the value \<open>v\<close> in the field \<open>RotateByTimeOrSize\<close> of the writer.\<close>

definition withMode :: "string \<Rightarrow> 'a \<times> RotateLog \<times> world \<Rightarrow> 'a \<times> RotateLog \<times> world" where
  "withMode v x = (case x of (a, r, w) \<Rightarrow> (a, r\<lparr>RotateByTimeOrSize := v\<rparr>, w))"

subsection \<open>The outcome of every operation of a pass\<close>

text \<open>
  For the statement about the error that a pass returns: the same removals and
  compressions as the two loops of \<open>millRunOnce\<close>, in the same order, keeping the
  outcome of each operation instead of one error variable.
\<close>

fun removeEach :: "path \<Rightarrow> logInfo list \<Rightarrow> world \<Rightarrow> error option list \<times> world" where
  "removeEach d [] w = ([], w)"
| "removeEach d (f # fs) w =
     (case os_Remove (filepath_Join [d, Name f]) w of
        (e, w') \<Rightarrow> (case removeEach d fs w' of (es, w'') \<Rightarrow> (e # es, w'')))"

fun compressEach :: "env \<Rightarrow> path \<Rightarrow> logInfo list \<Rightarrow> world \<Rightarrow> error option list \<times> world" where
  "compressEach E d [] w = ([], w)"
| "compressEach E d (f # fs) w =
     (case compressLogFile E (filepath_Join [d, Name f])
             (filepath_Join [d, Name f] @ compressSuffix) w of
        (e, w') \<Rightarrow> (case compressEach E d fs w' of (es, w'') \<Rightarrow> (e # es, w'')))"

definition firstError :: "error option list \<Rightarrow> error option" where
  "firstError es = (case filter (\<lambda>e. e \<noteq> None) es of [] \<Rightarrow> None | e # _ \<Rightarrow> e)"

definition lastError :: "error option list \<Rightarrow> error option" where
  "lastError es = (case rev (filter (\<lambda>e. e \<noteq> None) es) of [] \<Rightarrow> None | e # _ \<Rightarrow> e)"

definition isOpenRead :: "call \<Rightarrow> bool" where
  "isOpenRead c = (case c of OpenRead p \<Rightarrow> True | _ \<Rightarrow> False)"

definition pathOf :: "RotateLog \<Rightarrow> logInfo \<Rightarrow> path" where
  "pathOf r f = filepath_Join [dir r, Name f]"

text \<open>
  What the count branch of \<open>millRunOnce\<close> marks for removal, and calls that are not
  the opening of a source file for compression.
\<close>

definition countMarked :: "RotateLog \<Rightarrow> logInfo list \<Rightarrow> logInfo list" where
  "countMarked r files0 =
     (if MaxBackUps r > 0 \<and> MaxBackUps r < int (length files0)
      then fst (countLoop (MaxBackUps r) files0 [] [] [])
      else [])"

definition noOpenRead :: "call list \<Rightarrow> bool" where
  "noOpenRead cs = (filter isOpenRead cs = [])"

text \<open>
  Names of directory entries and the stacks of path elements that \<open>filepath.Clean\<close>
  builds: a name without separator that is not empty, \<open>.\<close> or \<open>..\<close>; a stack of
  elements that are free of separators, not empty and not \<open>.\<close>, where \<open>..\<close> stands at
  the front only, and not at all in a rooted path.
\<close>

definition sepFree :: "string \<Rightarrow> bool" where
  "sepFree n = (CHR ''/'' \<notin> set n)"

definition plainName :: "string \<Rightarrow> bool" where
  "plainName n = (n \<noteq> [] \<and> sepFree n \<and> n \<noteq> ''.'' \<and> n \<noteq> ''..'')"

definition okStack :: "bool \<Rightarrow> string list \<Rightarrow> bool" where
  "okStack rooted st =
     (\<exists>k rest. st = replicate k ''..'' @ rest \<and> (rooted \<longrightarrow> k = 0) \<and>
        list_all plainName rest)"

definition rootOf :: "bool \<Rightarrow> string" where
  "rootOf rooted = (if rooted then ''/'' else [])"

subsection \<open>Sample inputs\<close>

text \<open>
  Three instants, midnight UTC of 1, 2 and 3 January 2024, in nanoseconds since 1970,
  and an environment that formats and parses them as Go does.
\<close>

definition jan1 :: int where
  "jan1 = 1704067200000000000"

definition jan2 :: int where
  "jan2 = 1704153600000000000"

definition jan3 :: int where
  "jan3 = 1704240000000000000"

definition sampleEnv :: env where
  "sampleEnv =
     \<lparr>tempDir = ''/tmp'', arg0 = ''/usr/bin/prog'',
      formatTime = (\<lambda>local t. if t = jan3 then ''2024-01-03 00:00:00'' else ''1970-01-01 00:00:00''),
      parseTime = map_of [(''2024-01-01 00:00:00'', jan1), (''2024-01-02 00:00:00'', jan2)],
      gzip = (\<lambda>b. ''gzip:'' @ b)\<rparr>"

definition logCfg :: RotateLog where
  "logCfg =
     \<lparr>Filename = ''/var/log/app.log'', MaxBackUps = 0, MaxSize = 1, MaxAge = 0,
      RotateByTimeOrSize = ''time'', Compress = False, LocalTime = False,
      size = 0, file = None, startMill = False, millCh = 0\<rparr>"

text \<open>The writer with its file open, five bytes in it.\<close>

definition openCfg :: RotateLog where
  "openCfg = logCfg\<lparr>file := Some ''/var/log/app.log'', size := 5\<rparr>"

text \<open>A directory with the active file and two backups; no call fails.\<close>

definition logDisk :: world where
  "logDisk =
     \<lparr>files = [(''/var/log'', Directory),
               (''/var/log/app.log'', File ''hello'' 420),
               (''/var/log/app-2024-01-01 00:00:00.log'', File ''old'' 420),
               (''/var/log/app-2024-01-02 00:00:00.log'', File ''new'' 420)],
      clock = jan3, trace = [], faults = (\<lambda>tr c. None), short = (\<lambda>tr. 0)\<rparr>"

text \<open>The same writer with no base path, and compression on.\<close>

definition tmpCfg :: RotateLog where
  "tmpCfg = logCfg\<lparr>Filename := [], Compress := True\<rparr>"

text \<open>
  A temporary directory with one backup of the writer without base path, and the
  working directory of the process, which is empty.
\<close>

definition tmpDisk :: world where
  "tmpDisk =
     \<lparr>files = [(''/tmp'', Directory), (''.'', Directory),
               (''/tmp/prog_rotate-2024-01-01 00:00:00.log'', File ''old'' 420)],
      clock = jan3, trace = [], faults = (\<lambda>tr c. None), short = (\<lambda>tr. 0)\<rparr>"

text \<open>At most one backup is to be kept; every other field has its default.\<close>

definition countCfg :: RotateLog where
  "countCfg = logCfg\<lparr>MaxBackUps := 1, MaxSize := 0\<rparr>"

text \<open>At most one backup is to be kept, and backups are compressed.\<close>

definition keepOneCfg :: RotateLog where
  "keepOneCfg = logCfg\<lparr>MaxBackUps := 1, Compress := True\<rparr>"

definition newBackup :: logInfo where
  "newBackup = \<lparr>timestamp = jan2, Name = ''app-2024-01-02 00:00:00.log''\<rparr>"

definition oldBackup :: logInfo where
  "oldBackup = \<lparr>timestamp = jan1, Name = ''app-2024-01-01 00:00:00.log''\<rparr>"

text \<open>Backups are compressed; there is no limit on their number or age.\<close>

definition compressCfg :: RotateLog where
  "compressCfg = logCfg\<lparr>Compress := True\<rparr>"

text \<open>The same directory when the copy into the compressed file fails after three bytes.\<close>

definition copyFailDisk :: world where
  "copyFailDisk =
     logDisk\<lparr>faults := (\<lambda>tr c. case c of GzipCopy s d \<Rightarrow> Some (OSError ''no space left on device'')
                                      | _ \<Rightarrow> None),
             short := (\<lambda>tr. 3)\<rparr>"

text \<open>
  The same directory one day later, when the two backups cannot be removed, each for a
  reason of its own; and a writer that keeps backups for one day.
\<close>

definition stuckDisk :: world where
  "stuckDisk =
     logDisk\<lparr>clock := jan3 + day_ns,
             faults := (\<lambda>tr c.
               if c = Remove ''/var/log/app-2024-01-02 00:00:00.log''
                 then Some (OSError ''permission denied'')
               else if c = Remove ''/var/log/app-2024-01-01 00:00:00.log''
                 then Some (OSError ''device or resource busy'')
               else None)\<rparr>"

definition oneDayCfg :: RotateLog where
  "oneDayCfg = logCfg\<lparr>MaxAge := 1\<rparr>"

text \<open>A writer that keeps backups for one day and compresses them.\<close>

definition oneDayGzCfg :: RotateLog where
  "oneDayGzCfg = logCfg\<lparr>MaxAge := 1, Compress := True\<rparr>"

text \<open>A writer that keeps backups for 106752 days, a little over 292 years.\<close>

definition longAgeCfg :: RotateLog where
  "longAgeCfg = logCfg\<lparr>MaxAge := 106752\<rparr>"

text \<open>
  A log file that is six bytes short of one megabyte, the maximum size of \<open>logCfg\<close>,
  in a directory of its own.
\<close>

definition exactLog :: bytes where
  "exactLog = replicate 1048570 (CHR ''x'')"

definition exactDisk :: world where
  "exactDisk =
     \<lparr>files = [(''/var/log'', Directory), (''/var/log/app.log'', File exactLog 420)],
      clock = jan3, trace = [], faults = (\<lambda>tr c. None), short = (\<lambda>tr. 0)\<rparr>"


section \<open>Properties\<close>

subsection \<open>Small facts about the model\<close>

lemma wrap64_id: "- (2 ^ 63) \<le> x \<Longrightarrow> x < 2 ^ 63 \<Longrightarrow> wrap64 x = x"
  by (simp add: wrap64_def)

lemma filename_mill: "filename E (mill r) = filename E r"
  by (simp add: filename_def mill_def Let_def)

lemma max_size_mill: "max_size (mill r) = max_size r"
  by (simp add: max_size_def mill_def Let_def)

lemma dir_mill: "dir (mill r) = dir r"
  by (simp add: dir_def mill_def Let_def)

lemma file_mill: "file (mill r) = file r"
  by (simp add: mill_def Let_def)

lemma size_mill: "size (mill r) = size r"
  by (simp add: mill_def Let_def)

lemma trace_store: "trace (store p n w) = trace w"
  by (simp add: store_def)

lemma trace_unlink: "trace (unlink p w) = trace w"
  by (simp add: unlink_def)



lemma lookup_trace_upd: "lookup (w\<lparr>trace := t\<rparr>) p = lookup w p"
  by (simp add: lookup_def)

lemma trace_syscall: "trace (snd (syscall c w)) = trace w @ [c]"
  by (simp add: syscall_def)


lemma trace_Stat: "trace (snd (os_Stat p w)) = trace w @ [Stat p]"
  by (simp add: os_Stat_def syscall_def split: option.splits)


lemma trace_OpenCreate: "trace (snd (os_OpenCreate p m w)) = trace w @ [OpenCreate p m]"
  by (simp add: os_OpenCreate_def syscall_def trace_store split: option.splits node.splits)











lemma max_size_logCfg: "max_size openCfg = 1048576" "max_size logCfg = 1048576"
  by code_simp+

subsection \<open>Oversized writes\<close>

text \<open>
  Claim C2. A payload longer than the maximum size is rejected at once: \<open>Write\<close>
  returns zero bytes and an error, the writer is unchanged (its file and its counter
  among the rest) and so is the world: no file is touched and no call is issued, so no
  rotation takes place.
\<close>

theorem Write_oversized:
  "max_size r < int (length p) \<Longrightarrow>
   Write E p r w = ((0, Some (WriteTooLong (int (length p)) (max_size r))), r, w)"
  by (simp add: Write_def)

theorem Write_oversized_witness:
  "max_size logCfg < int (length (replicate 1048577 (CHR ''a''))) \<and>
   Write sampleEnv (replicate 1048577 (CHR ''a'')) logCfg logDisk =
     ((0, Some (WriteTooLong 1048577 1048576)), logCfg, logDisk)"
proof -
  have 1: "max_size logCfg < int (length (replicate 1048577 (CHR ''a'')))"
    by (simp add: max_size_logCfg)
  show ?thesis
    using Write_oversized[OF 1, of sampleEnv logDisk] 1 by (simp add: max_size_logCfg)
qed

subsection \<open>The field RotateByTimeOrSize\<close>

lemma ni_max: "max_size (r\<lparr>RotateByTimeOrSize := v\<rparr>) = max_size r"
  by (simp add: max_size_def)

lemma ni_filename: "filename E (r\<lparr>RotateByTimeOrSize := v\<rparr>) = filename E r"
  by (simp add: filename_def)

lemma ni_dir: "dir (r\<lparr>RotateByTimeOrSize := v\<rparr>) = dir r"
  by (simp add: dir_def)

lemma ni_mill: "mill (r\<lparr>RotateByTimeOrSize := v\<rparr>) = (mill r)\<lparr>RotateByTimeOrSize := v\<rparr>"
  by (simp add: mill_def Let_def)

lemma ni_close:
  "close_file (r\<lparr>RotateByTimeOrSize := v\<rparr>) w = withMode v (close_file r w)"
  by (simp add: close_file_def withMode_def split: option.splits prod.splits)

lemma ni_createNew:
  "createNew n m (r\<lparr>RotateByTimeOrSize := v\<rparr>) w = withMode v (createNew n m r w)"
  by (simp add: createNew_def withMode_def split: option.splits prod.splits)

lemma ni_openNew: "openNew E (r\<lparr>RotateByTimeOrSize := v\<rparr>) w = withMode v (openNew E r w)"
  by (simp add: openNew_def ni_dir ni_filename ni_createNew Let_def
      split: option.splits prod.splits sum.splits)
    (simp add: withMode_def)

lemma ni_rotate: "rotate E (r\<lparr>RotateByTimeOrSize := v\<rparr>) w = withMode v (rotate E r w)"
proof -
  obtain a r1 w1 where c: "close_file r w = (a, r1, w1)"
    by (cases "close_file r w")
  obtain b r2 w2 where o: "openNew E r1 w1 = (b, r2, w2)"
    by (cases "openNew E r1 w1")
  show ?thesis
    by (cases a; cases b) (simp_all add: rotate_def ni_close ni_openNew ni_mill withMode_def c o)
qed

lemma ni_openExistingOrNew:
  "openExistingOrNew E n (r\<lparr>RotateByTimeOrSize := v\<rparr>) w =
     withMode v (openExistingOrNew E n r w)"
proof -
  obtain a w1 where s: "os_Stat (filename E r) w = (a, w1)"
    by (cases "os_Stat (filename E r) w")
  obtain b w2 where p: "os_OpenAppend (filename E r) w1 = (b, w2)"
    by (cases "os_OpenAppend (filename E r) w1")
  show ?thesis
    by (cases a; cases b)
      (simp_all add: openExistingOrNew_def ni_mill ni_filename ni_max ni_rotate ni_openNew
        filename_mill max_size_mill Let_def withMode_def s p)
qed

lemma ni_Write: "Write E p (r\<lparr>RotateByTimeOrSize := v\<rparr>) w = withMode v (Write E p r w)"
proof -
  define x where "x = (if file r = None then openExistingOrNew E (length p) r w else (None, r, w))"
  obtain a r1 w1 where x: "x = (a, r1, w1)"
    by (cases x)
  define y where "y = (if wrap64 (size r1 + int (length p)) > max_size r1 then rotate E r1 w1
                       else (None, r1, w1))"
  obtain b r2 w2 where y: "y = (b, r2, w2)"
    by (cases y)
  have x': "(if file r = None then openExistingOrNew E (length p) (r\<lparr>RotateByTimeOrSize := v\<rparr>) w
             else (None, r\<lparr>RotateByTimeOrSize := v\<rparr>, w)) = withMode v x"
    by (simp add: x_def ni_openExistingOrNew withMode_def)
  have y': "(if wrap64 (size r1 + int (length p)) > max_size r1
             then rotate E (r1\<lparr>RotateByTimeOrSize := v\<rparr>) w1
             else (None, r1\<lparr>RotateByTimeOrSize := v\<rparr>, w1)) = withMode v y"
    by (simp add: y_def ni_rotate withMode_def)
  have lhs: "Write E p (r\<lparr>RotateByTimeOrSize := v\<rparr>) w =
      (if int (length p) > max_size r
       then ((0, Some (WriteTooLong (int (length p)) (max_size r))), r\<lparr>RotateByTimeOrSize := v\<rparr>, w)
       else (case withMode v x of
              (Some e, r1, w1) \<Rightarrow> ((0, Some e), r1, w1)
            | (None, r1, w1) \<Rightarrow>
                (case (if wrap64 (size r1 + int (length p)) > max_size r1 then rotate E r1 w1
                       else (None, r1, w1)) of
                   (Some e, r2, w2) \<Rightarrow> ((0, Some e), r2, w2)
                 | (None, r2, w2) \<Rightarrow>
                     (case file r2 of
                        None \<Rightarrow> ((0, Some (OSError ''invalid argument'')), r2, w2)
                      | Some h \<Rightarrow>
                          (case file_Write h p w2 of
                             ((n, err), w3) \<Rightarrow>
                               ((n, err), r2\<lparr>size := wrap64 (size r2 + int n)\<rparr>, w3))))))"
    unfolding Write_def Let_def ni_max x'[symmetric] by simp
  have rhs: "Write E p r w =
      (if int (length p) > max_size r
       then ((0, Some (WriteTooLong (int (length p)) (max_size r))), r, w)
       else (case x of
              (Some e, r1, w1) \<Rightarrow> ((0, Some e), r1, w1)
            | (None, r1, w1) \<Rightarrow>
                (case (if wrap64 (size r1 + int (length p)) > max_size r1 then rotate E r1 w1
                       else (None, r1, w1)) of
                   (Some e, r2, w2) \<Rightarrow> ((0, Some e), r2, w2)
                 | (None, r2, w2) \<Rightarrow>
                     (case file r2 of
                        None \<Rightarrow> ((0, Some (OSError ''invalid argument'')), r2, w2)
                      | Some h \<Rightarrow>
                          (case file_Write h p w2 of
                             ((n, err), w3) \<Rightarrow>
                               ((n, err), r2\<lparr>size := wrap64 (size r2 + int n)\<rparr>, w3))))))"
    unfolding Write_def Let_def x_def by simp
  show ?thesis
    unfolding lhs rhs
    by (cases a; cases b; cases "file r2")
      (simp_all add: x withMode_def ni_max y'[simplified y withMode_def, simplified]
        y[unfolded y_def] split: prod.splits)
qed

lemma ni_prefixAndExt: "prefixAndExt E (r\<lparr>RotateByTimeOrSize := v\<rparr>) = prefixAndExt E r"
  by (simp add: prefixAndExt_def ni_filename)

lemma ni_oldLogFiles: "oldLogFiles E (r\<lparr>RotateByTimeOrSize := v\<rparr>) w = oldLogFiles E r w"
  by (simp add: oldLogFiles_def ni_dir ni_prefixAndExt cong: prod.case_cong sum.case_cong)

lemma ni_marking: "marking (r\<lparr>RotateByTimeOrSize := v\<rparr>) now fs = marking r now fs"
  by (simp add: marking_def cutOffOf_def)

lemma ni_millRunOnce: "millRunOnce E (r\<lparr>RotateByTimeOrSize := v\<rparr>) w = millRunOnce E r w"
  by (simp add: millRunOnce_def ni_dir ni_oldLogFiles ni_marking
      cong: prod.case_cong sum.case_cong)

text \<open>
  Claim C10. No operation reads the field \<open>RotateByTimeOrSize\<close>: for any two values
  \<open>a\<close> and \<open>b\<close> of it, \<open>Write\<close> and \<open>rotate\<close> return the same result and leave the
  same world and the same writer, but for that field, and a maintenance pass returns the
  same error and leaves the same world. Rotation is decided by size alone.
\<close>

theorem RotateByTimeOrSize_never_read:
  "Write E p (r\<lparr>RotateByTimeOrSize := a\<rparr>) w =
     withMode a (Write E p (r\<lparr>RotateByTimeOrSize := b\<rparr>) w) \<and>
   rotate E (r\<lparr>RotateByTimeOrSize := a\<rparr>) w =
     withMode a (rotate E (r\<lparr>RotateByTimeOrSize := b\<rparr>) w) \<and>
   millRunOnce E (r\<lparr>RotateByTimeOrSize := a\<rparr>) w =
     millRunOnce E (r\<lparr>RotateByTimeOrSize := b\<rparr>) w"
  using ni_Write[where E = E and p = p and r = "r\<lparr>RotateByTimeOrSize := b\<rparr>" and v = a and w = w]
    ni_rotate[where E = E and r = "r\<lparr>RotateByTimeOrSize := b\<rparr>" and v = a and w = w]
    ni_millRunOnce[where E = E and r = r and v = a and w = w]
    ni_millRunOnce[where E = E and r = r and v = b and w = w]
  by simp

theorem RotateByTimeOrSize_never_read_witness:
  "fst (Write sampleEnv ''abc'' (logCfg\<lparr>RotateByTimeOrSize := ''size''\<rparr>) logDisk) =
     fst (Write sampleEnv ''abc'' (logCfg\<lparr>RotateByTimeOrSize := ''time''\<rparr>) logDisk) \<and>
   files (snd (snd (Write sampleEnv ''abc'' (logCfg\<lparr>RotateByTimeOrSize := ''size''\<rparr>) logDisk))) =
     files (snd (snd (Write sampleEnv ''abc'' (logCfg\<lparr>RotateByTimeOrSize := ''time''\<rparr>) logDisk))) \<and>
   fst (Write sampleEnv ''abc'' (logCfg\<lparr>RotateByTimeOrSize := ''time''\<rparr>) logDisk) = (3, None)"
proof -
  have 1: "fst (Write sampleEnv ''abc'' (logCfg\<lparr>RotateByTimeOrSize := ''time''\<rparr>) logDisk) =
      (3, None)"
    by code_simp
  show ?thesis
    using RotateByTimeOrSize_never_read[where E = sampleEnv and p = "''abc''" and r = logCfg
        and a = "''size''" and b = "''time''" and w = logDisk] 1
    by (simp add: withMode_def split: prod.splits)
qed

subsection \<open>Opening an existing file\<close>

lemma length_exactLog: "length exactLog = 1048570"
  by (simp add: exactLog_def)

lemma exact_paths:
  "filename sampleEnv logCfg = ''/var/log/app.log''"
  "dir logCfg = ''/var/log''"
  "filepath_Clean ''/var/log/app.log'' = ''/var/log/app.log''"
  "filepath_Clean ''/var/log'' = ''/var/log''"
  "backupName sampleEnv ''/var/log/app.log'' False jan3 = ''/var/log/app-2024-01-03 00:00:00.log''"
  "filepath_Clean ''/var/log/app-2024-01-03 00:00:00.log'' = ''/var/log/app-2024-01-03 00:00:00.log''"
  by code_simp+

lemma mill_fields:
  "Filename (mill r) = Filename r" "LocalTime (mill r) = LocalTime r"
  "MaxSize (mill r) = MaxSize r" "MaxAge (mill r) = MaxAge r"
  "MaxBackUps (mill r) = MaxBackUps r" "Compress (mill r) = Compress r"
  by (simp_all add: mill_def Let_def)

lemma logCfg_fields:
  "Filename logCfg = ''/var/log/app.log''" "LocalTime logCfg = False"
  "file logCfg = None" "MaxSize logCfg = 1"
  by (simp_all add: logCfg_def)


text \<open>
  Claim C8, at the input where the code departs from it. The log file exists and holds
  1048570 bytes, the maximum is 1048576 bytes and the pending write has six bytes: the
  write fits exactly and would not exceed the maximum. \<open>openExistingOrNew\<close> compares
  with \<open>>=\<close> and rotates all the same: the file is renamed to a backup and an empty
  file is created, where the comment of the function and the test of \<open>Write\<close>, which
  is \<open>>\<close>, say that the file is opened and appended to.
\<close>

theorem openExistingOrNew_rotates_at_exact_fit:
  "int (length exactLog) + int (length ''abcdef'') = max_size logCfg \<and>
   fst (openExistingOrNew sampleEnv (length ''abcdef'') logCfg exactDisk) = None \<and>
   trace (snd (snd (openExistingOrNew sampleEnv (length ''abcdef'') logCfg exactDisk))) =
     [Stat ''/var/log/app.log'', MkdirAll ''/var/log'', Stat ''/var/log/app.log'',
      Rename ''/var/log/app.log'' ''/var/log/app-2024-01-03 00:00:00.log'',
      OpenCreate ''/var/log/app.log'' 420] \<and>
   files (snd (snd (openExistingOrNew sampleEnv (length ''abcdef'') logCfg exactDisk))) =
     [(''/var/log'', Directory), (''/var/log/app-2024-01-03 00:00:00.log'', File exactLog 420),
      (''/var/log/app.log'', File [] 420)] \<and>
   size (fst (snd (openExistingOrNew sampleEnv (length ''abcdef'') logCfg exactDisk))) = 0"
  by (simp add: openExistingOrNew_def rotate_def close_file_def openNew_def createNew_def
      os_Stat_def os_MkdirAll_def os_Rename_def os_OpenCreate_def syscall_def lookup_def
      store_def unlink_def infoOf_def exactDisk_def Let_def filename_mill dir_mill max_size_mill
      max_size_logCfg exact_paths length_exactLog wrap64_def logCfg_fields mill_fields
      size_mill file_mill)

subsection \<open>Writes that fit\<close>






















subsection \<open>The directory of a pass\<close>

text \<open>With a base path set, \<open>dir\<close> is the directory of the active file.\<close>

lemma dir_of_set_path: "Filename r \<noteq> [] \<Longrightarrow> dir r = filepath_Dir (filename E r)"
  by (simp add: dir_def filename_def)

text \<open>
  Claim C9, at the input where the code departs from it. With no base path the active
  file is \<open>/tmp/prog_rotate.log\<close>, in the directory \<open>/tmp\<close>; \<open>dir\<close> takes the directory
  of the empty field \<open>Filename\<close>, not of \<open>filename()\<close>, which is \<open>.\<close>. The write
  creates the active file under \<open>/tmp\<close> (after making the directory \<open>.\<close>), and the
  pass lists \<open>.\<close>: the backup under \<open>/tmp\<close>, which compression is to replace, is not
  seen and stays as it is.
\<close>

theorem dir_ignores_default_path:
  "filename sampleEnv tmpCfg = ''/tmp/prog_rotate.log'' \<and>
   filepath_Dir (filename sampleEnv tmpCfg) = ''/tmp'' \<and>
   dir tmpCfg = ''.'' \<and>
   fst (Write sampleEnv ''abc'' tmpCfg tmpDisk) = (3, None) \<and>
   trace (snd (snd (Write sampleEnv ''abc'' tmpCfg tmpDisk))) =
     [Stat ''/tmp/prog_rotate.log'', MkdirAll ''.'', Stat ''/tmp/prog_rotate.log'',
      OpenCreate ''/tmp/prog_rotate.log'' 384, WriteTo ''/tmp/prog_rotate.log'' ''abc''] \<and>
   fst (millRunOnce sampleEnv tmpCfg tmpDisk) = None \<and>
   trace (snd (millRunOnce sampleEnv tmpCfg tmpDisk)) = [ReadDir ''.''] \<and>
   files (snd (millRunOnce sampleEnv tmpCfg tmpDisk)) =
     [(''/tmp'', Directory), (''.'', Directory),
      (''/tmp/prog_rotate-2024-01-01 00:00:00.log'', File ''old'' 420)]"
  by code_simp

subsection \<open>What a pass marks\<close>

text \<open>The first test of \<open>millRunOnce\<close> does not look at \<open>MaxBackUps\<close>.\<close>

lemma millRunOnce_skip:
  "MaxSize r = 0 \<Longrightarrow> MaxAge r = 0 \<Longrightarrow> \<not> Compress r \<Longrightarrow> millRunOnce E r w = (None, w)"
  by (simp add: millRunOnce_def)

text \<open>
  Claim C5, at the input where the code departs from it. At most one backup is to be
  kept and two are there, with every other field at its default: \<open>MaxSize\<close> is zero,
  \<open>MaxAge\<close> is zero and compression is off. The test at the head of \<open>millRunOnce\<close>
  reads \<open>MaxSize\<close> where the count is \<open>MaxBackUps\<close>, so the pass returns at once:
  it lists nothing, removes nothing, and both backups remain. With \<open>MaxSize\<close> set to
  one the same pass removes the older backup.
\<close>

theorem millRunOnce_skips_count_limit:
  "MaxBackUps countCfg = 1 \<and> MaxSize countCfg = 0 \<and>
   fst (oldLogFiles sampleEnv countCfg logDisk) = Inr [newBackup, oldBackup] \<and>
   fst (millRunOnce sampleEnv countCfg logDisk) = None \<and>
   trace (snd (millRunOnce sampleEnv countCfg logDisk)) = [] \<and>
   files (snd (millRunOnce sampleEnv countCfg logDisk)) =
     [(''/var/log'', Directory), (''/var/log/app.log'', File ''hello'' 420),
      (''/var/log/app-2024-01-01 00:00:00.log'', File ''old'' 420),
      (''/var/log/app-2024-01-02 00:00:00.log'', File ''new'' 420)] \<and>
   files (snd (millRunOnce sampleEnv (countCfg\<lparr>MaxSize := 1\<rparr>) logDisk)) =
     [(''/var/log'', Directory), (''/var/log/app.log'', File ''hello'' 420),
      (''/var/log/app-2024-01-02 00:00:00.log'', File ''new'' 420)]"
  by code_simp

text \<open>
  Claim C4, at the input where the code departs from it. One backup is to be kept, two
  are there, compression is on. The count loop marks the older backup for removal and
  collects the others in \<open>remaining\<close>, but \<open>files\<close> is not set to \<open>remaining\<close> as it
  is in the age loop: the older backup is a compression candidate too. The pass removes
  it, then tries to compress it, and returns the error of opening the file it has just
  removed.
\<close>

theorem removed_backup_is_compressed:
  "fst (oldLogFiles sampleEnv keepOneCfg logDisk) = Inr [newBackup, oldBackup] \<and>
   marking keepOneCfg jan3 [newBackup, oldBackup] = ([oldBackup], [newBackup, oldBackup]) \<and>
   fst (millRunOnce sampleEnv keepOneCfg logDisk) =
     Some (Errorf ''failed to open log file'' NotExist) \<and>
   trace (snd (millRunOnce sampleEnv keepOneCfg logDisk)) =
     [ReadDir ''/var/log'', Remove ''/var/log/app-2024-01-01 00:00:00.log'',
      OpenRead ''/var/log/app-2024-01-02 00:00:00.log'',
      Stat ''/var/log/app-2024-01-02 00:00:00.log'',
      OpenCreate ''/var/log/app-2024-01-02 00:00:00.log.gz'' 420,
      GzipCopy ''/var/log/app-2024-01-02 00:00:00.log'' ''/var/log/app-2024-01-02 00:00:00.log.gz'',
      GzipClose ''/var/log/app-2024-01-02 00:00:00.log.gz'',
      CloseFile ''/var/log/app-2024-01-02 00:00:00.log.gz'',
      CloseFile ''/var/log/app-2024-01-02 00:00:00.log'',
      CloseFile ''/var/log/app-2024-01-02 00:00:00.log.gz'',
      CloseFile ''/var/log/app-2024-01-02 00:00:00.log'',
      OpenRead ''/var/log/app-2024-01-01 00:00:00.log'']"
  by code_simp

subsection \<open>Compression\<close>

text \<open>
  Claim C3, at the inputs where the code departs from it. With compression on and no
  failure, the pass writes the compressed file of each backup beside it and leaves the
  backup in place: \<open>compressLogFile\<close> never removes its source, against its own
  comment. When the copy fails, the pass returns the error of the copy, and the part of
  the compressed file written so far stays: the deferred function that is to remove it
  tests a variable that is nil at that point, and no removal is issued.
\<close>

theorem compression_keeps_source_and_partial_output:
  "fst (millRunOnce sampleEnv compressCfg logDisk) = None \<and>
   files (snd (millRunOnce sampleEnv compressCfg logDisk)) =
     [(''/var/log'', Directory), (''/var/log/app.log'', File ''hello'' 420),
      (''/var/log/app-2024-01-01 00:00:00.log'', File ''old'' 420),
      (''/var/log/app-2024-01-02 00:00:00.log'', File ''new'' 420),
      (''/var/log/app-2024-01-02 00:00:00.log.gz'', File ''gzip:new'' 420),
      (''/var/log/app-2024-01-01 00:00:00.log.gz'', File ''gzip:old'' 420)] \<and>
   fst (millRunOnce sampleEnv compressCfg copyFailDisk) =
     Some (OSError ''no space left on device'') \<and>
   files (snd (millRunOnce sampleEnv compressCfg copyFailDisk)) =
     [(''/var/log'', Directory), (''/var/log/app.log'', File ''hello'' 420),
      (''/var/log/app-2024-01-01 00:00:00.log'', File ''old'' 420),
      (''/var/log/app-2024-01-02 00:00:00.log'', File ''new'' 420),
      (''/var/log/app-2024-01-02 00:00:00.log.gz'', File ''gzi'' 420),
      (''/var/log/app-2024-01-01 00:00:00.log.gz'', File ''gzi'' 420)] \<and>
   trace (snd (millRunOnce sampleEnv compressCfg copyFailDisk)) =
     [ReadDir ''/var/log'',
      OpenRead ''/var/log/app-2024-01-02 00:00:00.log'',
      Stat ''/var/log/app-2024-01-02 00:00:00.log'',
      OpenCreate ''/var/log/app-2024-01-02 00:00:00.log.gz'' 420,
      GzipCopy ''/var/log/app-2024-01-02 00:00:00.log'' ''/var/log/app-2024-01-02 00:00:00.log.gz'',
      CloseFile ''/var/log/app-2024-01-02 00:00:00.log.gz'',
      CloseFile ''/var/log/app-2024-01-02 00:00:00.log'',
      OpenRead ''/var/log/app-2024-01-01 00:00:00.log'',
      Stat ''/var/log/app-2024-01-01 00:00:00.log'',
      OpenCreate ''/var/log/app-2024-01-01 00:00:00.log.gz'' 420,
      GzipCopy ''/var/log/app-2024-01-01 00:00:00.log'' ''/var/log/app-2024-01-01 00:00:00.log.gz'',
      CloseFile ''/var/log/app-2024-01-01 00:00:00.log.gz'',
      CloseFile ''/var/log/app-2024-01-01 00:00:00.log'']"
  by code_simp

subsection \<open>The error of a pass\<close>

declare filepath_Join.simps [simp del]

lemma firstError_Nil: "firstError [] = None"
  by (simp add: firstError_def)

lemma firstError_Cons:
  "firstError (e # es) = (if e = None then firstError es else e)"
  by (simp add: firstError_def)

lemma firstError_append:
  "firstError (es1 @ es2) = (if firstError es1 = None then firstError es2 else firstError es1)"
  by (induction es1) (auto simp add: firstError_Cons firstError_Nil)

lemma removeLoop_eq:
  "removeLoop d fs err w =
     (case removeEach d fs w of (es, w') \<Rightarrow> (firstError (err # es), w'))"
proof (induction fs arbitrary: err w)
  case Nil
  show ?case by (simp add: firstError_def)
next
  case (Cons f fs)
  obtain e w1 where 1: "os_Remove (filepath_Join [d, Name f]) w = (e, w1)"
    by (cases "os_Remove (filepath_Join [d, Name f]) w")
  obtain es w2 where 2: "removeEach d fs w1 = (es, w2)"
    by (cases "removeEach d fs w1")
  show ?case
    by (auto simp add: 1 2 Cons.IH firstError_Cons)
qed

lemma compressFiles_eq:
  "compressFiles E d fs err w =
     (case compressEach E d fs w of (es, w') \<Rightarrow> (firstError (err # es), w'))"
proof (induction fs arbitrary: err w)
  case Nil
  show ?case by (simp add: firstError_def)
next
  case (Cons f fs)
  obtain e w1 where 1:
    "compressLogFile E (filepath_Join [d, Name f]) (filepath_Join [d, Name f] @ compressSuffix) w
       = (e, w1)"
    by (cases "compressLogFile E (filepath_Join [d, Name f])
          (filepath_Join [d, Name f] @ compressSuffix) w")
  obtain es w2 where 2: "compressEach E d fs w1 = (es, w2)"
    by (cases "compressEach E d fs w1")
  show ?case
    by (auto simp add: 1 2 Cons.IH firstError_Cons Let_def)
qed

lemma length_removeEach: "length (fst (removeEach d fs w)) = length fs"
proof (induction fs arbitrary: w)
  case Nil
  show ?case by simp
next
  case (Cons f fs)
  obtain e w1 where 1: "os_Remove (filepath_Join [d, Name f]) w = (e, w1)"
    by (cases "os_Remove (filepath_Join [d, Name f]) w")
  obtain es w2 where 2: "removeEach d fs w1 = (es, w2)"
    by (cases "removeEach d fs w1")
  show ?case
    using Cons.IH[of w1] by (simp add: 1 2)
qed

lemma length_compressEach: "length (fst (compressEach E d fs w)) = length fs"
proof (induction fs arbitrary: w)
  case Nil
  show ?case by simp
next
  case (Cons f fs)
  obtain e w1 where 1:
    "compressLogFile E (filepath_Join [d, Name f]) (filepath_Join [d, Name f] @ compressSuffix) w
       = (e, w1)"
    by (cases "compressLogFile E (filepath_Join [d, Name f])
          (filepath_Join [d, Name f] @ compressSuffix) w")
  obtain es w2 where 2: "compressEach E d fs w1 = (es, w2)"
    by (cases "compressEach E d fs w1")
  show ?case
    using Cons.IH[of w1] by (simp add: 1 2)
qed

lemma trace_Remove: "trace (snd (os_Remove p w)) = trace w @ [Remove p]"
  by (simp add: os_Remove_def syscall_def trace_unlink split: option.splits)

lemma trace_removeEach:
  "trace (snd (removeEach d fs w)) = trace w @ map (\<lambda>f. Remove (filepath_Join [d, Name f])) fs"
proof (induction fs arbitrary: w)
  case Nil
  show ?case by simp
next
  case (Cons f fs)
  obtain e w1 where 1: "os_Remove (filepath_Join [d, Name f]) w = (e, w1)"
    by (cases "os_Remove (filepath_Join [d, Name f]) w")
  have t: "trace w1 = trace w @ [Remove (filepath_Join [d, Name f])]"
    using trace_Remove[of "filepath_Join [d, Name f]" w] 1 by simp
  obtain es w2 where 2: "removeEach d fs w1 = (es, w2)"
    by (cases "removeEach d fs w1")
  show ?case
    using Cons.IH[of w1] by (simp add: 1 2 t)
qed

text \<open>Calls after which the trace has grown by calls that open no source file.\<close>

lemma quiet_refl: "\<exists>cs. trace w = trace w @ cs \<and> noOpenRead cs"
  by (simp add: noOpenRead_def)

lemma quiet_trans:
  assumes "\<exists>cs. trace w1 = trace w @ cs \<and> noOpenRead cs"
    and "\<exists>cs. trace w2 = trace w1 @ cs \<and> noOpenRead cs"
  shows "\<exists>cs. trace w2 = trace w @ cs \<and> noOpenRead cs"
proof -
  obtain a where a: "trace w1 = trace w @ a" "noOpenRead a" using assms(1) by auto
  obtain b where b: "trace w2 = trace w1 @ b" "noOpenRead b" using assms(2) by auto
  have "trace w2 = trace w @ (a @ b)" "noOpenRead (a @ b)"
    using a b by (simp_all add: noOpenRead_def)
  then show ?thesis by blast
qed

lemma trace_setContent: "trace (setContent p b w) = trace w"
  by (simp add: setContent_def trace_store split: option.splits node.splits)

lemma quiet_Stat: "\<exists>cs. trace (snd (os_Stat p w)) = trace w @ cs \<and> noOpenRead cs"
  by (simp add: trace_Stat noOpenRead_def isOpenRead_def)

lemma quiet_OpenCreate: "\<exists>cs. trace (snd (os_OpenCreate p m w)) = trace w @ cs \<and> noOpenRead cs"
  by (simp add: trace_OpenCreate noOpenRead_def isOpenRead_def)

lemma quiet_Close: "\<exists>cs. trace (snd (file_Close p w)) = trace w @ cs \<and> noOpenRead cs"
  by (simp add: file_Close_def trace_syscall noOpenRead_def isOpenRead_def)

lemma quiet_Copy: "\<exists>cs. trace (snd (gzip_Copy E s d w)) = trace w @ cs \<and> noOpenRead cs"
  by (simp add: gzip_Copy_def syscall_def trace_setContent noOpenRead_def isOpenRead_def
      split: option.splits)

lemma quiet_GzClose: "\<exists>cs. trace (snd (gzip_Close E s d w)) = trace w @ cs \<and> noOpenRead cs"
  by (simp add: gzip_Close_def syscall_def trace_setContent noOpenRead_def isOpenRead_def
      split: option.splits)

lemma quiet_deferred: "\<exists>cs. trace (deferred None s d w) = trace w @ cs \<and> noOpenRead cs"
  unfolding deferred_def Let_def option.case
  by (rule quiet_trans[OF quiet_Close quiet_Close])

lemma trace_Open: "trace (snd (os_Open p w)) = trace w @ [OpenRead p]"
  by (simp add: os_Open_def syscall_def split: option.splits)

lemma trace_compressLogFile:
  "\<exists>cs. trace (snd (compressLogFile E s d w)) = trace w @ OpenRead s # cs \<and> noOpenRead cs"
proof -
  obtain a w1 where a: "os_Open s w = (a, w1)" by (cases "os_Open s w")
  obtain b w2 where b: "os_Stat s w1 = (b, w2)" by (cases "os_Stat s w1")
  have t1: "trace w1 = trace w @ [OpenRead s]"
    using trace_Open[of s w] a by simp
  have q2: "\<exists>cs. trace w2 = trace w1 @ cs \<and> noOpenRead cs"
    using quiet_Stat[of s w1] b by simp
  have fin: "\<exists>cs. trace w' = trace w1 @ cs \<and> noOpenRead cs
      \<Longrightarrow> \<exists>cs. trace w' = trace w @ OpenRead s # cs \<and> noOpenRead cs" for w'
    using t1 by auto
  show ?thesis
  proof (cases a)
    case (Some e)
    then show ?thesis by (simp add: compressLogFile_def a t1 noOpenRead_def)
  next
    case None
    note an = this
    show ?thesis
    proof (cases b)
      case (Inl e)
      have "\<exists>cs. trace (snd (file_Close s w2)) = trace w1 @ cs \<and> noOpenRead cs"
        by (rule quiet_trans[OF q2 quiet_Close])
      then show ?thesis
        by (simp add: compressLogFile_def a an b Inl fin)
    next
      case (Inr fi)
      obtain c w3 where c: "os_OpenCreate d (Mode fi) w2 = (c, w3)"
        by (cases "os_OpenCreate d (Mode fi) w2")
      have q3: "\<exists>cs. trace w3 = trace w1 @ cs \<and> noOpenRead cs"
        using quiet_trans[OF q2 quiet_OpenCreate[of d "Mode fi" w2]] c by simp
      show ?thesis
      proof (cases c)
        case (Some e)
        have "\<exists>cs. trace (snd (file_Close s w3)) = trace w1 @ cs \<and> noOpenRead cs"
          by (rule quiet_trans[OF q3 quiet_Close])
        then show ?thesis
          by (simp add: compressLogFile_def a an b Inr c Some fin)
      next
        case None
        note cn = this
        obtain g w4 where g: "gzip_Copy E s d w3 = (g, w4)" by (cases "gzip_Copy E s d w3")
        obtain h w5 where h: "gzip_Close E s d w4 = (h, w5)" by (cases "gzip_Close E s d w4")
        obtain i w6 where i: "file_Close d w5 = (i, w6)" by (cases "file_Close d w5")
        obtain j w7 where j: "file_Close s w6 = (j, w7)" by (cases "file_Close s w6")
        have q4: "\<exists>cs. trace w4 = trace w1 @ cs \<and> noOpenRead cs"
          using quiet_trans[OF q3 quiet_Copy[of E s d w3]] g by simp
        have q5: "\<exists>cs. trace w5 = trace w1 @ cs \<and> noOpenRead cs"
          using quiet_trans[OF q4 quiet_GzClose[of E s d w4]] h by simp
        have q6: "\<exists>cs. trace w6 = trace w1 @ cs \<and> noOpenRead cs"
          using quiet_trans[OF q5 quiet_Close[of d w5]] i by simp
        have q7: "\<exists>cs. trace w7 = trace w1 @ cs \<and> noOpenRead cs"
          using quiet_trans[OF q6 quiet_Close[of s w6]] j by simp
        have d: "\<exists>cs. trace w' = trace w1 @ cs \<and> noOpenRead cs \<Longrightarrow>
            \<exists>cs. trace (deferred None s d w') = trace w @ OpenRead s # cs \<and> noOpenRead cs" for w'
          using quiet_trans[OF _ quiet_deferred] fin by blast
        show ?thesis
          by (cases g; cases h; cases i; cases j)
            (simp_all add: compressLogFile_def a an b Inr c cn g h i j d q4 q5 q6 q7)
      qed
    qed
  qed
qed

lemma trace_compressEach:
  "\<exists>cs. trace (snd (compressEach E d fs w)) = trace w @ cs \<and>
        filter isOpenRead cs = map (\<lambda>f. OpenRead (filepath_Join [d, Name f])) fs"
proof (induction fs arbitrary: w)
  case Nil
  show ?case by simp
next
  case (Cons f fs)
  obtain e w1 where 1:
    "compressLogFile E (filepath_Join [d, Name f]) (filepath_Join [d, Name f] @ compressSuffix) w
       = (e, w1)"
    by (cases "compressLogFile E (filepath_Join [d, Name f])
          (filepath_Join [d, Name f] @ compressSuffix) w")
  obtain cs where cs: "trace w1 = trace w @ OpenRead (filepath_Join [d, Name f]) # cs"
      "noOpenRead cs"
    using trace_compressLogFile[of E "filepath_Join [d, Name f]"
        "filepath_Join [d, Name f] @ compressSuffix" w] 1 by auto
  obtain es w2 where 2: "compressEach E d fs w1 = (es, w2)"
    by (cases "compressEach E d fs w1")
  obtain ds where ds: "trace w2 = trace w1 @ ds"
      "filter isOpenRead ds = map (\<lambda>f. OpenRead (filepath_Join [d, Name f])) fs"
    using Cons.IH[of w1] 2 by auto
  have "trace w2 = trace w @ (OpenRead (filepath_Join [d, Name f]) # cs @ ds)"
    using cs ds by simp
  moreover have "filter isOpenRead (OpenRead (filepath_Join [d, Name f]) # cs @ ds) =
      map (\<lambda>f. OpenRead (filepath_Join [d, Name f])) (f # fs)"
    using cs(2) ds(2) by (simp add: noOpenRead_def isOpenRead_def)
  ultimately show ?case
    by (simp add: 1 2)
qed


text \<open>
  Claim C7, as the code has it. A pass that gets its list of backups attempts every
  removal, in order, and then every compression, in order, whatever the outcome of the
  operations before; the error it returns is the first one among their outcomes (the
  loops keep an error only while none is recorded), and nil when there is none. The
  calls issued show it: one removal for each file marked for removal, then, among the
  calls of the compressions, one opening for each file marked for compression.
\<close>

theorem millRunOnce_first_error:
  assumes guard: "\<not> (MaxSize r = 0 \<and> MaxAge r = 0 \<and> \<not> Compress r)"
    and listed: "fst (oldLogFiles E r w) = Inr files0"
  shows "let w1 = snd (oldLogFiles E r w);
             remove = fst (marking r (clock w1) files0);
             compress = snd (marking r (clock w1) files0);
             es1 = fst (removeEach (dir r) remove w1);
             w2 = snd (removeEach (dir r) remove w1);
             es2 = fst (compressEach E (dir r) compress w2);
             w3 = snd (compressEach E (dir r) compress w2)
         in millRunOnce E r w = (firstError (es1 @ es2), w3) \<and>
            length es1 = length remove \<and> length es2 = length compress \<and>
            trace w2 = trace w1 @ map (\<lambda>f. Remove (pathOf r f)) remove \<and>
            (\<exists>cs. trace w3 = trace w2 @ cs \<and>
                  filter isOpenRead cs = map (\<lambda>f. OpenRead (pathOf r f)) compress)"
proof -
  define w1 where "w1 = snd (oldLogFiles E r w)"
  define remove where "remove = fst (marking r (clock w1) files0)"
  define compress where "compress = snd (marking r (clock w1) files0)"
  define es1 where "es1 = fst (removeEach (dir r) remove w1)"
  define w2 where "w2 = snd (removeEach (dir r) remove w1)"
  define es2 where "es2 = fst (compressEach E (dir r) compress w2)"
  define w3 where "w3 = snd (compressEach E (dir r) compress w2)"
  have old: "oldLogFiles E r w = (Inr files0, w1)"
    using listed by (simp add: w1_def prod_eq_iff)
  have mk: "marking r (clock w1) files0 = (remove, compress)"
    by (simp add: remove_def compress_def)
  have re: "removeEach (dir r) remove w1 = (es1, w2)"
    by (simp add: es1_def w2_def)
  have ce: "compressEach E (dir r) compress w2 = (es2, w3)"
    by (simp add: es2_def w3_def)
  have "millRunOnce E r w = (firstError (firstError (None # es1) # es2), w3)"
    using guard by (auto simp add: millRunOnce_def old mk removeLoop_eq re compressFiles_eq ce)
  then have res: "millRunOnce E r w = (firstError (es1 @ es2), w3)"
    by (simp add: firstError_Cons firstError_append)
  have l1: "length es1 = length remove"
    using length_removeEach[of "dir r" remove w1] by (simp add: es1_def)
  have l2: "length es2 = length compress"
    using length_compressEach[of E "dir r" compress w2] by (simp add: es2_def)
  have t1: "trace w2 = trace w1 @ map (\<lambda>f. Remove (pathOf r f)) remove"
    using trace_removeEach[of "dir r" remove w1] by (simp add: w2_def pathOf_def)
  have t2: "\<exists>cs. trace w3 = trace w2 @ cs \<and>
      filter isOpenRead cs = map (\<lambda>f. OpenRead (pathOf r f)) compress"
    using trace_compressEach[of E "dir r" compress w2] by (simp add: w3_def pathOf_def)
  show ?thesis
    unfolding Let_def
    using res l1 l2 t1 t2
    by (simp only: w1_def[symmetric] remove_def[symmetric] compress_def[symmetric]
        es1_def[symmetric] w2_def[symmetric] es2_def[symmetric] w3_def[symmetric])
qed

theorem millRunOnce_first_error_witness:
  "\<not> (MaxSize oneDayCfg = 0 \<and> MaxAge oneDayCfg = 0 \<and> \<not> Compress oneDayCfg) \<and>
   fst (oldLogFiles sampleEnv oneDayCfg stuckDisk) = Inr [newBackup, oldBackup] \<and>
   fst (marking oneDayCfg (clock (snd (oldLogFiles sampleEnv oneDayCfg stuckDisk)))
          [newBackup, oldBackup]) = [newBackup, oldBackup] \<and>
   fst (removeEach (dir oneDayCfg) [newBackup, oldBackup]
          (snd (oldLogFiles sampleEnv oneDayCfg stuckDisk))) =
     [Some (OSError ''permission denied''), Some (OSError ''device or resource busy'')] \<and>
   fst (millRunOnce sampleEnv oneDayCfg stuckDisk) =
     firstError [Some (OSError ''permission denied''), Some (OSError ''device or resource busy'')]"
proof -
  have 1: "\<not> (MaxSize oneDayCfg = 0 \<and> MaxAge oneDayCfg = 0 \<and> \<not> Compress oneDayCfg)"
    by (simp add: oneDayCfg_def logCfg_def)
  have 2: "fst (oldLogFiles sampleEnv oneDayCfg stuckDisk) = Inr [newBackup, oldBackup]"
    by code_simp
  have 3: "marking oneDayCfg (clock (snd (oldLogFiles sampleEnv oneDayCfg stuckDisk)))
             [newBackup, oldBackup] = ([newBackup, oldBackup], [])"
    by code_simp
  have 4: "fst (removeEach (dir oneDayCfg) [newBackup, oldBackup]
                  (snd (oldLogFiles sampleEnv oneDayCfg stuckDisk))) =
             [Some (OSError ''permission denied''), Some (OSError ''device or resource busy'')]"
    by code_simp
  show ?thesis
    using millRunOnce_first_error[OF 1 2] 1 2 4
    by (simp add: Let_def 3)
qed

text \<open>
  Claim C7 as stated says that the pass returns the last error. Here both removals
  fail, the second with another error than the first, and the pass returns the first.
\<close>

theorem last_error_counterexample:
  "fst (removeEach (dir oneDayCfg) [newBackup, oldBackup]
          (snd (oldLogFiles sampleEnv oneDayCfg stuckDisk))) =
     [Some (OSError ''permission denied''), Some (OSError ''device or resource busy'')] \<and>
   trace (snd (millRunOnce sampleEnv oneDayCfg stuckDisk)) =
     [ReadDir ''/var/log'', Remove ''/var/log/app-2024-01-02 00:00:00.log'',
      Remove ''/var/log/app-2024-01-01 00:00:00.log''] \<and>
   lastError [Some (OSError ''permission denied''), Some (OSError ''device or resource busy'')] =
     Some (OSError ''device or resource busy'') \<and>
   fst (millRunOnce sampleEnv oneDayCfg stuckDisk) = Some (OSError ''permission denied'') \<and>
   fst (millRunOnce sampleEnv oneDayCfg stuckDisk) \<noteq>
     lastError [Some (OSError ''permission denied''), Some (OSError ''device or resource busy'')]"
  by code_simp

subsection \<open>The age rule\<close>

lemma cutOffOf_days:
  assumes "0 < MaxAge r" and "MaxAge r \<le> 106751"
  shows "cutOffOf r now = now - MaxAge r * day_ns"
proof -
  have d: "wrap64 day_ns = day_ns"
    by (simp add: wrap64_def day_ns_def)
  have lo: "0 < day_ns * MaxAge r"
    using assms by (simp add: day_ns_def)
  have "day_ns * MaxAge r \<le> day_ns * 106751"
    using assms by (simp add: day_ns_def)
  then have hi: "day_ns * MaxAge r < 2 ^ 63"
    by (simp add: day_ns_def)
  have p: "wrap64 (day_ns * MaxAge r) = day_ns * MaxAge r"
    using lo hi by (intro wrap64_id) auto
  have n: "wrap64 (- (day_ns * MaxAge r)) = - (day_ns * MaxAge r)"
    using lo hi by (intro wrap64_id) auto
  show ?thesis
    by (simp add: cutOffOf_def Let_def d p n mult.commute)
qed

lemma ageLoop_filter:
  "ageLoop c fs rm rest =
     (rm @ filter (\<lambda>f. timestamp f < c) fs, rest @ filter (\<lambda>f. \<not> timestamp f < c) fs)"
  by (induction fs arbitrary: rm rest) simp_all

lemma compressLoop_filter:
  "compressLoop fs acc = acc @ filter (\<lambda>f. \<not> HasSuffix (Name f) compressSuffix) fs"
  by (induction fs arbitrary: acc) simp_all

lemma marking_with_age:
  assumes "0 < MaxAge r"
  shows "marking r now fs =
     (countMarked r fs @ filter (\<lambda>f. timestamp f < cutOffOf r now) fs,
      if Compress r
      then filter (\<lambda>f. \<not> HasSuffix (Name f) compressSuffix)
             (filter (\<lambda>f. \<not> timestamp f < cutOffOf r now) fs)
      else [])"
  using assms
  by (simp add: marking_def countMarked_def ageLoop_filter compressLoop_filter Let_def)

text \<open>What holds of every step of \<open>compressLogFile\<close> holds of the whole of it.\<close>

lemma compressLogFile_steps:
  assumes refl: "\<And>w. P w w"
    and trans: "\<And>a b c. P a b \<Longrightarrow> P b c \<Longrightarrow> P a c"
    and opn: "\<And>w. P w (snd (os_Open s w))"
    and stat: "\<And>w. P w (snd (os_Stat s w))"
    and crt: "\<And>w m. P w (snd (os_OpenCreate d m w))"
    and cpy: "\<And>w. P w (snd (gzip_Copy E s d w))"
    and gzc: "\<And>w. P w (snd (gzip_Close E s d w))"
    and cls: "\<And>w p. P w (snd (file_Close p w))"
  shows "P w (snd (compressLogFile E s d w))"
proof -
  obtain a w1 where a: "os_Open s w = (a, w1)" by (cases "os_Open s w")
  obtain b w2 where b: "os_Stat s w1 = (b, w2)" by (cases "os_Stat s w1")
  have p1: "P w w1" using opn[of w] a by simp
  have p2: "P w w2" using trans[OF p1 stat[of w1]] b by simp
  have dfr: "P w w' \<Longrightarrow> P w (deferred None s d w')" for w'
    unfolding deferred_def Let_def option.case
    by (rule trans[OF trans[OF _ cls] cls])
  show ?thesis
  proof (cases a)
    case (Some e)
    then show ?thesis by (simp add: compressLogFile_def a p1)
  next
    case None
    note an = this
    show ?thesis
    proof (cases b)
      case (Inl e)
      have "P w (snd (file_Close s w2))"
        by (rule trans[OF p2 cls])
      then show ?thesis
        by (simp add: compressLogFile_def a an b Inl)
    next
      case (Inr fi)
      obtain c w3 where c: "os_OpenCreate d (Mode fi) w2 = (c, w3)"
        by (cases "os_OpenCreate d (Mode fi) w2")
      have p3: "P w w3"
        using trans[OF p2 crt[of w2 "Mode fi"]] c by simp
      show ?thesis
      proof (cases c)
        case (Some e)
        have "P w (snd (file_Close s w3))"
          by (rule trans[OF p3 cls])
        then show ?thesis
          by (simp add: compressLogFile_def a an b Inr c Some)
      next
        case None
        note cn = this
        obtain g w4 where g: "gzip_Copy E s d w3 = (g, w4)" by (cases "gzip_Copy E s d w3")
        obtain h w5 where h: "gzip_Close E s d w4 = (h, w5)" by (cases "gzip_Close E s d w4")
        obtain i w6 where i: "file_Close d w5 = (i, w6)" by (cases "file_Close d w5")
        obtain j w7 where j: "file_Close s w6 = (j, w7)" by (cases "file_Close s w6")
        have p4: "P w w4" using trans[OF p3 cpy[of w3]] g by simp
        have p5: "P w w5" using trans[OF p4 gzc[of w4]] h by simp
        have p6: "P w w6" using trans[OF p5 cls[of w5 d]] i by simp
        have p7: "P w w7" using trans[OF p6 cls[of w6 s]] j by simp
        show ?thesis
          by (cases g; cases h; cases i; cases j)
            (simp_all add: compressLogFile_def a an b Inr c cn g h i j dfr p4 p5 p6 p7)
      qed
    qed
  qed
qed

text \<open>A compression leaves the oracle and every path but its destination as they were.\<close>

lemma lookup_store_other:
  "filepath_Clean q \<noteq> filepath_Clean p \<Longrightarrow> lookup (store p n w) q = lookup w q"
  by (simp add: lookup_def store_def update_conv')

lemma lookup_unlink:
  "lookup (unlink p w) q = (if filepath_Clean q = filepath_Clean p then None else lookup w q)"
  by (simp add: lookup_def unlink_def delete_conv')

lemma lookup_setContent_other:
  "filepath_Clean q \<noteq> filepath_Clean p \<Longrightarrow> lookup (setContent p b w) q = lookup w q"
  by (simp add: setContent_def lookup_store_other split: option.splits node.splits)

lemma faults_store: "faults (store p n w) = faults w"
  by (simp add: store_def)

lemma faults_setContent: "faults (setContent p b w) = faults w"
  by (simp add: setContent_def faults_store split: option.splits node.splits)

lemma compressLogFile_frame:
  assumes "filepath_Clean q \<noteq> filepath_Clean d"
  shows "faults (snd (compressLogFile E s d w)) = faults w \<and>
         lookup (snd (compressLogFile E s d w)) q = lookup w q"
proof (rule compressLogFile_steps[where P = "\<lambda>w w'. faults w' = faults w \<and> lookup w' q = lookup w q"])
  show "\<And>w. faults (snd (os_Open s w)) = faults w \<and> lookup (snd (os_Open s w)) q = lookup w q"
    by (simp add: os_Open_def syscall_def lookup_trace_upd split: option.splits)
  show "\<And>w. faults (snd (os_Stat s w)) = faults w \<and> lookup (snd (os_Stat s w)) q = lookup w q"
    by (simp add: os_Stat_def syscall_def lookup_trace_upd split: option.splits)
  show "\<And>w m. faults (snd (os_OpenCreate d m w)) = faults w \<and>
               lookup (snd (os_OpenCreate d m w)) q = lookup w q"
    using assms
    by (simp add: os_OpenCreate_def syscall_def lookup_trace_upd lookup_store_other faults_store
        split: option.splits node.splits)
  show "\<And>w. faults (snd (gzip_Copy E s d w)) = faults w \<and>
             lookup (snd (gzip_Copy E s d w)) q = lookup w q"
    using assms
    by (simp add: gzip_Copy_def syscall_def lookup_trace_upd lookup_setContent_other
        faults_setContent split: option.splits)
  show "\<And>w. faults (snd (gzip_Close E s d w)) = faults w \<and>
             lookup (snd (gzip_Close E s d w)) q = lookup w q"
    using assms
    by (simp add: gzip_Close_def syscall_def lookup_trace_upd lookup_setContent_other
        faults_setContent split: option.splits)
  show "\<And>w p. faults (snd (file_Close p w)) = faults w \<and>
               lookup (snd (file_Close p w)) q = lookup w q"
    by (simp add: file_Close_def syscall_def lookup_trace_upd)
qed simp_all

lemma compressEach_frame:
  assumes "\<forall>g \<in> set fs. filepath_Clean (filepath_Join [d, Name g] @ compressSuffix) \<noteq> filepath_Clean q"
  shows "lookup (snd (compressEach E d fs w)) q = lookup w q"
  using assms
proof (induction fs arbitrary: w)
  case Nil
  show ?case by simp
next
  case (Cons f fs)
  obtain e w1 where 1:
    "compressLogFile E (filepath_Join [d, Name f]) (filepath_Join [d, Name f] @ compressSuffix) w
       = (e, w1)"
    by (cases "compressLogFile E (filepath_Join [d, Name f])
          (filepath_Join [d, Name f] @ compressSuffix) w")
  obtain es w2 where 2: "compressEach E d fs w1 = (es, w2)"
    by (cases "compressEach E d fs w1")
  have "filepath_Clean q \<noteq> filepath_Clean (filepath_Join [d, Name f] @ compressSuffix)"
    using Cons.prems by auto
  then have "lookup w1 q = lookup w q"
    using compressLogFile_frame[of q "filepath_Join [d, Name f] @ compressSuffix" E
        "filepath_Join [d, Name f]" w] 1 by simp
  moreover have "lookup w2 q = lookup w1 q"
    using Cons.IH[of w1] Cons.prems 2 by simp
  ultimately show ?case
    by (simp add: 1 2)
qed

text \<open>A removal that the oracle lets through leaves no file at the path.\<close>

lemma faults_unlink: "faults (unlink p w) = faults w"
  by (simp add: unlink_def)

lemma Remove_props:
  "faults (snd (os_Remove p w)) = faults w \<and>
   (lookup w q = None \<longrightarrow> lookup (snd (os_Remove p w)) q = None) \<and>
   (faults w (trace w) (Remove p) = None \<longrightarrow> lookup (snd (os_Remove p w)) p = None)"
  by (simp add: os_Remove_def syscall_def lookup_trace_upd lookup_unlink faults_unlink
      split: option.splits)

lemma removeEach_keeps:
  "faults (snd (removeEach d fs w)) = faults w \<and>
   (lookup w q = None \<longrightarrow> lookup (snd (removeEach d fs w)) q = None)"
proof (induction fs arbitrary: w)
  case Nil
  show ?case by simp
next
  case (Cons f fs)
  obtain e w1 where 1: "os_Remove (filepath_Join [d, Name f]) w = (e, w1)"
    by (cases "os_Remove (filepath_Join [d, Name f]) w")
  obtain es w2 where 2: "removeEach d fs w1 = (es, w2)"
    by (cases "removeEach d fs w1")
  show ?case
    using Remove_props[of "filepath_Join [d, Name f]" w q] Cons.IH[of w1]
    by (simp add: 1 2)
qed

lemma removeEach_removes:
  assumes "\<forall>tr p. faults w tr (Remove p) = None" and "f \<in> set fs"
  shows "lookup (snd (removeEach d fs w)) (filepath_Join [d, Name f]) = None"
  using assms
proof (induction fs arbitrary: w)
  case Nil
  then show ?case by simp
next
  case (Cons g fs)
  obtain e w1 where 1: "os_Remove (filepath_Join [d, Name g]) w = (e, w1)"
    by (cases "os_Remove (filepath_Join [d, Name g]) w")
  obtain es w2 where 2: "removeEach d fs w1 = (es, w2)"
    by (cases "removeEach d fs w1")
  have fw: "faults w1 = faults w"
    using Remove_props[of "filepath_Join [d, Name g]" w] 1 by simp
  show ?case
  proof (cases "f \<in> set fs")
    case True
    then show ?thesis
      using Cons.IH[of w1] Cons.prems(1) fw by (simp add: 1 2)
  next
    case False
    then have fg: "f = g" using Cons.prems(2) by simp
    have "lookup w1 (filepath_Join [d, Name g]) = None"
      using Remove_props[of "filepath_Join [d, Name g]" w] 1 Cons.prems(1) by simp
    then have "lookup w2 (filepath_Join [d, Name g]) = None"
      using removeEach_keeps[of d fs w1 "filepath_Join [d, Name g]"] 2 by simp
    then show ?thesis by (simp add: 1 2 fg)
  qed
qed


lemma oldLogFiles_world:
  "faults (snd (oldLogFiles E r w)) = faults w \<and> clock (snd (oldLogFiles E r w)) = clock w"
  by (simp add: oldLogFiles_def ioutil_ReadDir_def syscall_def
      split: option.splits node.splits prod.splits sum.splits)

lemma millRunOnce_world:
  assumes "\<not> (MaxSize r = 0 \<and> MaxAge r = 0 \<and> \<not> Compress r)"
    and "fst (oldLogFiles E r w) = Inr files0"
  shows "snd (millRunOnce E r w) =
     snd (compressEach E (dir r) (snd (marking r (clock w) files0))
            (snd (removeEach (dir r) (fst (marking r (clock w) files0))
                    (snd (oldLogFiles E r w)))))"
proof -
  define w1 where "w1 = snd (oldLogFiles E r w)"
  have old: "oldLogFiles E r w = (Inr files0, w1)"
    using assms(2) by (simp add: w1_def prod_eq_iff)
  have c: "clock w1 = clock w"
    using oldLogFiles_world[of E r w] by (simp add: w1_def)
  obtain remove compress where mk: "marking r (clock w) files0 = (remove, compress)"
    by (cases "marking r (clock w) files0")
  obtain es1 w2 where re: "removeEach (dir r) remove w1 = (es1, w2)"
    by (cases "removeEach (dir r) remove w1")
  obtain es2 w3 where ce: "compressEach E (dir r) compress w2 = (es2, w3)"
    by (cases "compressEach E (dir r) compress w2")
  show ?thesis
    using assms(1)
    by (auto simp add: millRunOnce_def old c mk removeLoop_eq re compressFiles_eq ce
        w1_def[symmetric])
qed

subsection \<open>Paths of directory entries\<close>

lemma splitSep_nonempty: "splitSep p \<noteq> []"
  by (induction p) (auto split: list.splits)

lemma splitSep_append: "splitSep (a @ CHR ''/'' # b) = splitSep a @ splitSep b"
proof (induction a)
  case Nil
  show ?case by (simp add: isSep_def)
next
  case (Cons c a)
  show ?case
    using splitSep_nonempty[of a] Cons.IH
    by (cases "splitSep a") (auto simp add: isSep_def split: list.splits)
qed

lemma splitSep_sepFree: "sepFree n \<Longrightarrow> splitSep n = [n]"
  by (induction n) (auto simp add: sepFree_def isSep_def)

lemma joinSep_snoc: "joinSep (st @ [x]) = concat (map (\<lambda>e. e @ ''/'') st) @ x"
  by (induction st rule: joinSep.induct) auto

lemma splitSep_concat:
  "list_all sepFree st \<Longrightarrow> sepFree x \<Longrightarrow>
   splitSep (concat (map (\<lambda>e. e @ ''/'') st) @ x) = st @ [x]"
proof (induction st)
  case Nil
  then show ?case by (simp add: splitSep_sepFree)
next
  case (Cons a st)
  have "splitSep (a @ CHR ''/'' # (concat (map (\<lambda>e. e @ ''/'') st) @ x)) =
      splitSep a @ splitSep (concat (map (\<lambda>e. e @ ''/'') st) @ x)"
    by (rule splitSep_append)
  then show ?case
    using Cons by (simp add: splitSep_sepFree)
qed

lemma cleanStep_plain: "plainName c \<Longrightarrow> cleanStep rooted st c = st @ [c]"
  by (simp add: cleanStep_def plainName_def)

lemma okStack_Nil: "okStack rooted []"
  by (simp add: okStack_def)

lemma okStack_snoc: "okStack rooted st \<Longrightarrow> plainName n \<Longrightarrow> okStack rooted (st @ [n])"
proof -
  assume a: "okStack rooted st" and n: "plainName n"
  then obtain k rest where st: "st = replicate k ''..'' @ rest" "rooted \<longrightarrow> k = 0"
      "list_all plainName rest"
    by (auto simp add: okStack_def)
  have "st @ [n] = replicate k ''..'' @ (rest @ [n])" "list_all plainName (rest @ [n])"
    using st n by simp_all
  then show ?thesis
    using st(2) unfolding okStack_def by blast
qed

lemma plain_not_dots: "plainName x \<Longrightarrow> x \<noteq> ''..'' \<and> x \<noteq> ''.'' \<and> x \<noteq> []"
  by (simp add: plainName_def)

lemma okStack_cleanStep:
  assumes "okStack rooted st" and "sepFree c"
  shows "okStack rooted (cleanStep rooted st c)"
proof -
  obtain k rest where st: "st = replicate k ''..'' @ rest" "rooted \<longrightarrow> k = 0"
      "list_all plainName rest"
    using assms(1) by (auto simp add: okStack_def)
  show ?thesis
  proof (cases "c = [] \<or> c = ''.''")
    case True
    then show ?thesis using assms(1) by (auto simp add: cleanStep_def)
  next
    case False
    note nd = this
    show ?thesis
    proof (cases "c = ''..''")
      case False
      then have "plainName c"
        using nd assms(2) by (simp add: plainName_def)
      then show ?thesis
        using assms(1) by (simp add: cleanStep_plain okStack_snoc)
    next
      case True
      note dd = this
      show ?thesis
      proof (cases "rest = []")
        case False
        then have l: "last st = last rest" "st \<noteq> []" "butlast st = replicate k ''..'' @ butlast rest"
          using st(1) by (simp_all add: butlast_append)
        have "plainName (last rest)"
          using st(3) False by (simp add: list_all_iff)
        then have "last st \<noteq> ''..''"
          using l plain_not_dots by metis
        then have "cleanStep rooted st c = replicate k ''..'' @ butlast rest"
          using l dd by (simp add: cleanStep_def)
        moreover have "list_all plainName (butlast rest)"
          using st(3) by (auto simp add: list_all_iff dest: in_set_butlastD)
        ultimately show ?thesis
          using st(2) unfolding okStack_def by blast
      next
        case True
        then have s: "st = replicate k ''..''" using st(1) by simp
        show ?thesis
        proof (cases rooted)
          case True
          then have "st = []" using s st(2) by simp
          then show ?thesis
            using dd True by (simp add: cleanStep_def okStack_Nil)
        next
          case False
          have "st = [] \<or> last st = ''..''"
            using s by (cases k) simp_all
          then have "cleanStep rooted st c = replicate (Suc k) ''..''"
            using dd False s by (auto simp add: cleanStep_def replicate_append_same)
          then have "cleanStep rooted st c = replicate (Suc k) ''..'' @ [] \<and>
              (rooted \<longrightarrow> Suc k = 0) \<and> list_all plainName []"
            using False by simp
          then show ?thesis
            unfolding okStack_def by blast
        qed
      qed
    qed
  qed
qed

lemma splitSep_all_sepFree: "list_all sepFree (splitSep p)"
proof (induction p)
  case Nil
  show ?case by (simp add: sepFree_def)
next
  case (Cons c p)
  then show ?case
    using splitSep_nonempty[of p]
    by (cases "splitSep p") (auto simp add: sepFree_def isSep_def)
qed

lemma okStack_foldl:
  "okStack rooted st \<Longrightarrow> list_all sepFree cs \<Longrightarrow> okStack rooted (foldl (cleanStep rooted) st cs)"
  by (induction cs arbitrary: st) (simp_all add: okStack_cleanStep)


lemma okStack_snocD:
  assumes "okStack rooted (st @ [x])"
  shows "okStack rooted st \<and>
         (plainName x \<or> x = ''..'' \<and> \<not> rooted \<and> (st = [] \<or> last st = ''..''))"
proof -
  obtain k rest where d: "st @ [x] = replicate k ''..'' @ rest" "rooted \<longrightarrow> k = 0"
      "list_all plainName rest"
    using assms by (auto simp add: okStack_def)
  show ?thesis
  proof (cases "rest = []")
    case False
    then have r: "rest = butlast rest @ [last rest]"
      by simp
    have "st @ [x] = (replicate k ''..'' @ butlast rest) @ [last rest]"
      using d(1) r by (metis append_assoc)
    then have sx: "st = replicate k ''..'' @ butlast rest" "x = last rest"
      by simp_all
    have p: "list_all plainName (butlast rest)" "plainName (last rest)"
      using d(3) False by (auto simp add: list_all_iff dest: in_set_butlastD)
    have "okStack rooted st"
      unfolding okStack_def using sx(1) d(2) p(1) by blast
    then show ?thesis
      using sx(2) p(2) by simp
  next
    case True
    then have e: "st @ [x] = replicate k ''..''"
      using d(1) by simp
    then obtain j where k: "k = Suc j"
      by (cases k) simp_all
    have "replicate (Suc j) ''..'' = replicate j ''..'' @ [''..'']"
      by (simp add: replicate_append_same)
    then have "st @ [x] = replicate j ''..'' @ [''..'']"
      using e k by simp
    then have sx: "st = replicate j ''..''" "x = ''..''"
      by simp_all
    have l: "st = [] \<or> last st = ''..''"
      using sx(1) by (cases j) simp_all
    have nr: "\<not> rooted"
      using d(2) k by simp
    have "st = replicate j ''..'' @ [] \<and> (rooted \<longrightarrow> j = 0) \<and> list_all plainName []"
      using sx(1) nr by simp
    then have "okStack rooted st"
      unfolding okStack_def by blast
    then show ?thesis
      using sx(2) nr l by simp
  qed
qed

lemma cleanStep_dotdot:
  "\<not> rooted \<Longrightarrow> st = [] \<or> last st = ''..'' \<Longrightarrow> cleanStep rooted st ''..'' = st @ [''..'']"
  unfolding cleanStep_def by auto

lemma foldl_okStack: "okStack rooted st \<Longrightarrow> foldl (cleanStep rooted) [] st = st"
proof (induction st rule: rev_induct)
  case Nil
  show ?case by simp
next
  case (snoc x st)
  note d = okStack_snocD[OF snoc.prems]
  have "cleanStep rooted st x = st @ [x]"
  proof (cases "plainName x")
    case True
    then show ?thesis by (rule cleanStep_plain)
  next
    case False
    then have "x = ''..''" "\<not> rooted" "st = [] \<or> last st = ''..''"
      using d by blast+
    then show ?thesis
      using cleanStep_dotdot[of rooted st] by simp
  qed
  then show ?case
    using snoc.IH d by simp
qed

lemma Clean_unfold:
  "filepath_Clean p =
     (if p \<noteq> [] \<and> isSep (hd p)
      then ''/'' @ joinSep (foldl (cleanStep True) [] (splitSep p))
      else if joinSep (foldl (cleanStep False) [] (splitSep p)) = [] then ''.''
      else joinSep (foldl (cleanStep False) [] (splitSep p)))"
proof -
  define rooted where "rooted = (p \<noteq> [] \<and> isSep (hd p))"
  have A: "filepath_Clean p =
     (if rooted
      then ''/'' @ joinSep (foldl (cleanStep rooted) [] (splitSep p))
      else if joinSep (foldl (cleanStep rooted) [] (splitSep p)) = [] then ''.''
      else joinSep (foldl (cleanStep rooted) [] (splitSep p)))"
    unfolding filepath_Clean_def Let_def rooted_def ..
  have B: "(if rooted
      then ''/'' @ joinSep (foldl (cleanStep rooted) [] (splitSep p))
      else if joinSep (foldl (cleanStep rooted) [] (splitSep p)) = [] then ''.''
      else joinSep (foldl (cleanStep rooted) [] (splitSep p))) =
     (if rooted
      then ''/'' @ joinSep (foldl (cleanStep True) [] (splitSep p))
      else if joinSep (foldl (cleanStep False) [] (splitSep p)) = [] then ''.''
      else joinSep (foldl (cleanStep False) [] (splitSep p)))"
    by (cases rooted) simp_all
  show ?thesis
    unfolding A B unfolding rooted_def ..
qed

lemma okStack_sepFree: "okStack rooted st \<Longrightarrow> list_all sepFree st"
proof -
  assume "okStack rooted st"
  then obtain k rest where d: "st = replicate k ''..'' @ rest" "list_all plainName rest"
    by (auto simp add: okStack_def)
  have "sepFree ''..''"
    by (simp add: sepFree_def)
  then have "list_all sepFree (replicate k ''..'')"
    by (simp add: list_all_iff)
  moreover have "list_all sepFree rest"
    using d(2) by (simp add: list_all_iff plainName_def)
  ultimately show ?thesis
    using d(1) by simp
qed

lemma okStack_hd:
  assumes "okStack rooted (st @ [x])"
  shows "concat (map (\<lambda>e. e @ ''/'') st) @ x \<noteq> [] \<and>
         \<not> isSep (hd (concat (map (\<lambda>e. e @ ''/'') st) @ x))"
proof -
  have "list_all sepFree (st @ [x])"
    using assms by (rule okStack_sepFree)
  moreover have "[] \<notin> set (st @ [x])"
  proof -
    obtain k rest where d: "st @ [x] = replicate k ''..'' @ rest" "list_all plainName rest"
      using assms by (auto simp add: okStack_def)
    have "[] \<notin> set (replicate k ''..'')" by simp
    moreover have "[] \<notin> set rest"
      using d(2) by (auto simp add: list_all_iff plainName_def)
    ultimately show ?thesis
      unfolding d(1) by simp
  qed
  ultimately have all: "\<forall>e \<in> set (st @ [x]). e \<noteq> [] \<and> sepFree e"
    by (auto simp add: list_all_iff)
  show ?thesis
  proof (cases st)
    case Nil
    then show ?thesis
      using all by (cases x) (auto simp add: sepFree_def isSep_def)
  next
    case (Cons a st')
    then show ?thesis
      using all by (cases a) (auto simp add: sepFree_def isSep_def)
  qed
qed

lemma Clean_of_clean:
  assumes "okStack rooted (st @ [x])"
  shows "filepath_Clean (rootOf rooted @ joinSep (st @ [x])) = rootOf rooted @ joinSep (st @ [x])"
proof -
  define body where "body = concat (map (\<lambda>e. e @ ''/'') st) @ x"
  have j: "joinSep (st @ [x]) = body"
    by (simp add: joinSep_snoc body_def)
  have sf: "list_all sepFree st" "sepFree x"
    using okStack_sepFree[OF assms] by simp_all
  have sp: "splitSep body = st @ [x]"
    unfolding body_def using sf by (rule splitSep_concat)
  have hd: "body \<noteq> []" "\<not> isSep (hd body)"
    using okStack_hd[OF assms] by (simp_all add: body_def)
  have fo: "foldl (cleanStep rooted) [] (st @ [x]) = st @ [x]"
    using assms by (rule foldl_okStack)
  show ?thesis
  proof (cases rooted)
    case True
    have s1: "splitSep (CHR ''/'' # body) = [] # (st @ [x])"
      using sp by (simp add: isSep_def)
    have c0: "cleanStep True [] [] = []"
      by (simp add: cleanStep_def)
    have "foldl (cleanStep True) [] ([] # (st @ [x])) = st @ [x]"
      using fo True by (simp add: c0 del: foldl_append)
    then have "filepath_Clean (CHR ''/'' # body) = CHR ''/'' # joinSep (st @ [x])"
      unfolding Clean_unfold s1 by (simp add: isSep_def)
    then show ?thesis
      using True by (simp add: rootOf_def j)
  next
    case False
    have "filepath_Clean body = joinSep (st @ [x])"
      unfolding Clean_unfold sp using hd fo False j by simp
    then show ?thesis
      using False by (simp add: rootOf_def j)
  qed
qed

text \<open>Joining a directory and the name of an entry.\<close>

lemma Join_shape:
  "\<exists>rooted st. okStack rooted st \<and>
      (\<forall>n. plainName n \<longrightarrow> filepath_Join [d, n] = rootOf rooted @ joinSep (st @ [n]))"
proof (cases "d = []")
  case True
  have "\<forall>n. plainName n \<longrightarrow> filepath_Join [[], n] = rootOf False @ joinSep ([] @ [n])"
  proof (intro allI impI)
    fix n assume n: "plainName n"
    have "okStack False ([] @ [n])"
      using okStack_snoc[OF okStack_Nil n] by simp
    from Clean_of_clean[OF this] show "filepath_Join [[], n] = rootOf False @ joinSep ([] @ [n])"
      using n by (simp add: filepath_Join.simps rootOf_def plainName_def)
  qed
  then show ?thesis
    using True okStack_Nil by blast
next
  case False
  define rooted where "rooted = isSep (hd d)"
  define st where "st = foldl (cleanStep rooted) [] (splitSep d)"
  have ok: "okStack rooted st"
    unfolding st_def by (rule okStack_foldl[OF okStack_Nil splitSep_all_sepFree])
  have "\<forall>n. plainName n \<longrightarrow> filepath_Join [d, n] = rootOf rooted @ joinSep (st @ [n])"
  proof (intro allI impI)
    fix n assume n: "plainName n"
    have sf: "sepFree n" using n by (simp add: plainName_def)
    have sp: "splitSep (d @ CHR ''/'' # n) = splitSep d @ [n]"
      by (simp add: splitSep_append splitSep_sepFree[OF sf])
    have hd: "d @ CHR ''/'' # n \<noteq> []" "isSep (hd (d @ CHR ''/'' # n)) = rooted"
      using False by (simp_all add: rooted_def)
    have fo: "foldl (cleanStep rooted) [] (splitSep d @ [n]) = st @ [n]"
      by (simp add: st_def cleanStep_plain[OF n])
    have ne: "joinSep (st @ [n]) \<noteq> []"
      using n by (simp add: joinSep_snoc plainName_def)
    have "filepath_Clean (d @ CHR ''/'' # n) = rootOf rooted @ joinSep (st @ [n])"
    proof (cases rooted)
      case True
      then show ?thesis
        unfolding Clean_unfold sp using hd fo by (simp add: rootOf_def)
    next
      case False
      then show ?thesis
        unfolding Clean_unfold sp using hd fo ne by (simp add: rootOf_def)
    qed
    then show "filepath_Join [d, n] = rootOf rooted @ joinSep (st @ [n])"
      using \<open>d \<noteq> []\<close> by (simp add: filepath_Join.simps)
  qed
  then show ?thesis
    using ok by blast
qed

lemma plainName_gz: "plainName n \<Longrightarrow> plainName (n @ compressSuffix)"
proof -
  assume n: "plainName n"
  have l: "3 \<le> length (n @ compressSuffix)"
    by (simp add: compressSuffix_def)
  have "n @ compressSuffix \<noteq> ''.''"
  proof
    assume "n @ compressSuffix = ''.''"
    then have "length (n @ compressSuffix) = length ''.''"
      by (rule arg_cong)
    then show False using l by simp
  qed
  moreover have "n @ compressSuffix \<noteq> ''..''"
  proof
    assume "n @ compressSuffix = ''..''"
    then have "length (n @ compressSuffix) = length ''..''"
      by (rule arg_cong)
    then show False using l by simp
  qed
  moreover have "sepFree (n @ compressSuffix)"
    using n by (simp add: plainName_def sepFree_def compressSuffix_def)
  moreover have "n @ compressSuffix \<noteq> []"
    using n by (simp add: plainName_def)
  ultimately show ?thesis
    unfolding plainName_def by blast
qed

lemma Join_gz_apart:
  assumes n: "plainName n" and m: "plainName m"
    and eq: "filepath_Clean (filepath_Join [d, n] @ compressSuffix) =
             filepath_Clean (filepath_Join [d, m])"
  shows "m = n @ compressSuffix"
proof -
  obtain rooted st where ok: "okStack rooted st"
    and sh: "\<forall>n. plainName n \<longrightarrow> filepath_Join [d, n] = rootOf rooted @ joinSep (st @ [n])"
    using Join_shape[of d] by blast
  have g: "plainName (n @ compressSuffix)"
    using n by (rule plainName_gz)
  have "filepath_Join [d, n] @ compressSuffix = rootOf rooted @ joinSep (st @ [n @ compressSuffix])"
    using sh n by (simp add: joinSep_snoc)
  then have l: "filepath_Clean (filepath_Join [d, n] @ compressSuffix) =
      rootOf rooted @ joinSep (st @ [n @ compressSuffix])"
    using Clean_of_clean[OF okStack_snoc[OF ok g]] by simp
  have r: "filepath_Clean (filepath_Join [d, m]) = rootOf rooted @ joinSep (st @ [m])"
    using sh m Clean_of_clean[OF okStack_snoc[OF ok m]] by simp
  show ?thesis
    using eq l r by (simp add: joinSep_snoc)
qed

subsection \<open>The names that a pass recognizes\<close>

lemma HasSuffix_iff: "HasSuffix n e \<longleftrightarrow> (\<exists>u. n = u @ e)"
proof
  assume "HasSuffix n e"
  then have "n = take (length n - length e) n @ e"
    by (simp add: HasSuffix_def) (metis append_take_drop_id)
  then show "\<exists>u. n = u @ e" by blast
next
  assume "\<exists>u. n = u @ e"
  then show "HasSuffix n e" by (auto simp add: HasSuffix_def)
qed

lemma HasPrefix_iff: "HasPrefix n p \<longleftrightarrow> (\<exists>u. n = p @ u)"
proof
  assume "HasPrefix n p"
  then have "n = p @ drop (length p) n"
    by (simp add: HasPrefix_def) (metis append_take_drop_id)
  then show "\<exists>u. n = p @ u" by blast
next
  assume "\<exists>u. n = p @ u"
  then show "HasPrefix n p" by (auto simp add: HasPrefix_def)
qed

text \<open>A name that \<open>timeFromName\<close> accepts is the prefix, a text that parses, and the extension.\<close>

lemma timeFromName_Inr:
  assumes "timeFromName E n p e = Inr t"
  shows "\<exists>mid. n = p @ mid @ e \<and> parseTime E mid = Some t"
proof -
  have hp: "HasPrefix n p" and hs: "HasSuffix n e"
    and le: "length p \<le> length n - length e"
    and pt: "parseTime E (drop (length p) (take (length n - length e) n)) = Some t"
    using assms by (auto simp add: timeFromName_def split: if_splits option.splits)
  obtain u where u: "n = u @ e"
    using hs HasSuffix_iff by blast
  have tk: "take (length n - length e) n = u"
    using u by simp
  obtain v where v: "n = p @ v"
    using hp HasPrefix_iff by blast
  have "length p \<le> length u"
    using le u by simp
  then have "u = p @ drop (length p) u"
    using u v by (metis append_eq_append_conv_if append_take_drop_id)
  then have "n = p @ drop (length p) u @ e"
    using u by (metis append_assoc)
  then show ?thesis
    using pt tk by simp
qed

lemma set_insertByTime: "set (insertByTime x xs) = insert x (set xs)"
  by (induction xs) auto

lemma set_sortByFormatTime: "set (sortByFormatTime xs) = set xs"
proof -
  have "set (foldl (\<lambda>acc x. insertByTime x acc) a xs) = set a \<union> set xs" for a
    by (induction xs arbitrary: a) (auto simp add: set_insertByTime)
  then show ?thesis
    by (simp add: sortByFormatTime_def)
qed

lemma scanEntries_found:
  assumes "scanEntries E p e es acc = Inr out" and "f \<in> set out"
  shows "f \<in> set acc \<or>
     (\<exists>nd. (Name f, nd) \<in> set es \<and>
        (timeFromName E (Name f) p e = Inr (timestamp f) \<or>
         timeFromName E (Name f) p (e @ compressSuffix) = Inr (timestamp f)))"
  using assms
proof (induction es arbitrary: acc)
  case Nil
  then show ?case by simp
next
  case (Cons a es)
  obtain n nd where a: "a = (n, nd)" by (cases a)
  show ?case
  proof (cases "nd = Directory")
    case True
    then have "scanEntries E p e es acc = Inr out"
      using Cons.prems(1) by (simp add: a)
    from Cons.IH[OF this Cons.prems(2)] show ?thesis
      by auto
  next
    case False
    then have s: "scanEntries E p e es
        (acc @ found n (timeFromName E n p e) @ found n (timeFromName E n p (e @ compressSuffix)))
        = Inr out"
      using Cons.prems(1) by (simp add: a Let_def split: if_splits)
    from Cons.IH[OF s Cons.prems(2)] show ?thesis
      by (auto simp add: a found_def split: sum.splits)
  qed
qed

lemma Base_shape:
  "filepath_Base p = ''/'' \<or> filepath_Base p = ''.'' \<or>
   (filepath_Base p \<noteq> [] \<and> sepFree (filepath_Base p))"
proof -
  have "sepFree (afterLastSep q)" for q
    unfolding afterLastSep_def sepFree_def
    by (auto simp add: isSep_def dest: set_takeWhileD)
  then show ?thesis
    by (auto simp add: filepath_Base_def Let_def)
qed

lemma Ext_shape:
  "filepath_Ext p = [] \<or> (\<exists>rest. filepath_Ext p = CHR ''.'' # rest \<and> CHR ''.'' \<notin> set rest)"
  by (auto simp add: filepath_Ext_def Let_def dest: set_takeWhileD)

lemma prefixAndExt_shape:
  "\<exists>x. fst (prefixAndExt E r) = x @ ''-''"
  by (simp add: prefixAndExt_def Let_def)

lemma snd_prefixAndExt_shape:
  "snd (prefixAndExt E r) = [] \<or>
   (\<exists>rest. snd (prefixAndExt E r) = CHR ''.'' # rest \<and> CHR ''.'' \<notin> set rest)"
  using Ext_shape[of "filepath_Base (filename E r)"] by (simp add: prefixAndExt_def Let_def)

lemma entriesOf_names: "(n, nd) \<in> set (entriesOf d w) \<Longrightarrow> \<exists>p. n = filepath_Base p"
  by (auto simp add: entriesOf_def)

lemma ReadDir_names:
  assumes "ioutil_ReadDir d w = (Inr es, w1)" and "(n, nd) \<in> set es"
  shows "\<exists>p. n = filepath_Base p"
proof -
  have "es = entriesOf d (snd (syscall (ReadDir d) w))"
    using assms(1)
    by (auto simp add: ioutil_ReadDir_def split: prod.splits option.splits node.splits)
  then show ?thesis
    using assms(2) entriesOf_names by blast
qed

lemma dash_plain:
  assumes "n = (x @ ''-'') @ u" and "\<exists>p. n = filepath_Base p"
  shows "plainName n"
proof -
  have d: "CHR ''-'' \<in> set n"
    using assms(1) by simp
  then have "n \<noteq> ''/''" "n \<noteq> ''.''" "n \<noteq> ''..''" "n \<noteq> []"
    by auto
  moreover from this have "sepFree n"
    using assms(2) Base_shape by metis
  ultimately show ?thesis
    by (simp add: plainName_def)
qed

text \<open>
  Every backup that \<open>oldLogFiles\<close> lists has a plain name, which \<open>timeFromName\<close>
  accepts with the extension of the log file or with the compressed one.
\<close>

lemma oldLogFiles_recognized:
  assumes "fst (oldLogFiles E r w) = Inr bs" and "f \<in> set bs"
  shows "plainName (Name f) \<and>
     (timeFromName E (Name f) (fst (prefixAndExt E r)) (snd (prefixAndExt E r)) =
        Inr (timestamp f) \<or>
      timeFromName E (Name f) (fst (prefixAndExt E r)) (snd (prefixAndExt E r) @ compressSuffix) =
        Inr (timestamp f))"
proof -
  obtain x w1 where rd: "ioutil_ReadDir (dir r) w = (x, w1)"
    by (cases "ioutil_ReadDir (dir r) w")
  obtain p e where pe: "prefixAndExt E r = (p, e)"
    by (cases "prefixAndExt E r")
  obtain es where x: "x = Inr es"
    using assms(1) rd by (cases x) (simp_all add: oldLogFiles_def)
  obtain lf where sc: "scanEntries E p e es [] = Inr lf" and bs: "bs = sortByFormatTime lf"
    using assms(1) rd x pe
    by (cases "scanEntries E p e es []") (simp_all add: oldLogFiles_def)
  have "f \<in> set lf"
    using assms(2) bs by (simp add: set_sortByFormatTime)
  from scanEntries_found[OF sc this]
  obtain nd where nd: "(Name f, nd) \<in> set es"
    and tf: "timeFromName E (Name f) p e = Inr (timestamp f) \<or>
             timeFromName E (Name f) p (e @ compressSuffix) = Inr (timestamp f)"
    by auto
  have base: "\<exists>q. Name f = filepath_Base q"
    using ReadDir_names[OF rd[unfolded x] nd] .
  obtain y where y: "p = y @ ''-''"
    using prefixAndExt_shape[of E r] pe by auto
  obtain mid e' where "Name f = p @ mid @ e'"
    using tf timeFromName_Inr by blast
  then have "Name f = (y @ ''-'') @ (mid @ e')"
    using y by simp
  then have "plainName (Name f)"
    using base by (rule dash_plain)
  then show ?thesis
    using tf pe by simp
qed

lemma HasSuffix_append: "HasSuffix n (e @ s) \<Longrightarrow> HasSuffix n s"
  unfolding HasSuffix_iff by (metis append_assoc)

text \<open>
  The compressed name of a backup without the compressed suffix is the name of no
  backup with another timestamp, when the parser accepts no text that ends in the
  compressed suffix.
\<close>

lemma recognized_apart:
  assumes listed: "fst (oldLogFiles E r w) = Inr bs"
    and strict: "\<forall>s. HasSuffix s compressSuffix \<longrightarrow> parseTime E s = None"
    and g: "g \<in> set bs" and ngz: "\<not> HasSuffix (Name g) compressSuffix"
    and f: "f \<in> set bs" and ne: "timestamp f \<noteq> timestamp g"
  shows "filepath_Clean (pathOf r g @ compressSuffix) \<noteq> filepath_Clean (pathOf r f)"
proof
  assume eq: "filepath_Clean (pathOf r g @ compressSuffix) = filepath_Clean (pathOf r f)"
  define p where "p = fst (prefixAndExt E r)"
  define e where "e = snd (prefixAndExt E r)"
  note rg = oldLogFiles_recognized[OF listed g, folded p_def e_def]
  note rf = oldLogFiles_recognized[OF listed f, folded p_def e_def]
  have nf: "Name f = Name g @ compressSuffix"
    using Join_gz_apart[of "Name g" "Name f" "dir r"] rg rf eq by (simp add: pathOf_def)
  have "timeFromName E (Name g) p (e @ compressSuffix) \<noteq> Inr (timestamp g)"
  proof
    assume "timeFromName E (Name g) p (e @ compressSuffix) = Inr (timestamp g)"
    then have "HasSuffix (Name g) (e @ compressSuffix)"
      by (auto simp add: timeFromName_def split: if_splits)
    then show False
      using ngz HasSuffix_append by blast
  qed
  then have "timeFromName E (Name g) p e = Inr (timestamp g)"
    using rg by blast
  then obtain mg where mg: "Name g = p @ mg @ e" "parseTime E mg = Some (timestamp g)"
    using timeFromName_Inr by blast
  have e_shape: "e = [] \<or> (\<exists>rest. e = CHR ''.'' # rest \<and> CHR ''.'' \<notin> set rest)"
    using snd_prefixAndExt_shape[of E r] by (simp add: e_def)
  have e_ngz: "\<not> (\<exists>u. e = u @ compressSuffix)"
  proof
    assume "\<exists>u. e = u @ compressSuffix"
    then obtain u where "e = u @ compressSuffix" by blast
    then have "Name g = (p @ mg @ u) @ compressSuffix"
      using mg(1) by simp
    then show False
      using ngz HasSuffix_iff by blast
  qed
  from rf show False
  proof (elim conjE disjE)
    assume "timeFromName E (Name f) p (e @ compressSuffix) = Inr (timestamp f)"
    then obtain mf where mf: "Name f = p @ mf @ e @ compressSuffix"
        "parseTime E mf = Some (timestamp f)"
      using timeFromName_Inr by blast
    have "p @ mf @ e @ compressSuffix = p @ mg @ e @ compressSuffix"
      using mf(1) nf mg(1) by simp
    then have "mf = mg" by simp
    then show False
      using mf(2) mg(2) ne by simp
  next
    assume "timeFromName E (Name f) p e = Inr (timestamp f)"
    then obtain mf where mf: "Name f = p @ mf @ e" "parseTime E mf = Some (timestamp f)"
      using timeFromName_Inr by blast
    have "p @ mf @ e = p @ mg @ e @ compressSuffix"
      using mf(1) nf mg(1) by simp
    then have me: "mf @ e = (mg @ e) @ compressSuffix"
      by simp
    then obtain us where us: "mf = (mg @ e) @ us \<and> us @ e = compressSuffix \<or>
        mf @ us = mg @ e \<and> e = us @ compressSuffix"
      unfolding append_eq_append_conv2 by blast
    then have a: "mf = (mg @ e) @ us" "us @ e = compressSuffix"
      using e_ngz by blast+
    show False
    proof (cases "e = []")
      case True
      then have "mf = mg @ compressSuffix"
        using a by simp
      then have "HasSuffix mf compressSuffix"
        using HasSuffix_iff by blast
      then show False
        using strict mf(2) by simp
    next
      case False
      then obtain rest where rest: "e = CHR ''.'' # rest" "CHR ''.'' \<notin> set rest"
        using e_shape by blast
      have "us @ CHR ''.'' # rest = ''.gz''"
        using a(2) rest(1) by (simp add: compressSuffix_def)
      then have "us = [] \<and> rest = ''gz'' \<or> (\<exists>v. us = CHR ''.'' # v \<and> v @ CHR ''.'' # rest = ''gz'')"
        by (cases us) auto
      then show False
      proof
        assume "us = [] \<and> rest = ''gz''"
        then have "e = [] @ compressSuffix"
          using rest(1) by (simp add: compressSuffix_def)
        then show False
          using e_ngz by blast
      next
        assume "\<exists>v. us = CHR ''.'' # v \<and> v @ CHR ''.'' # rest = ''gz''"
        then obtain v where "v @ CHR ''.'' # rest = ''gz''" by blast
        then have "CHR ''.'' \<in> set ''gz''"
          by (metis in_set_conv_decomp)
        then show False by simp
      qed
    qed
  qed
qed

subsection \<open>The age rule and the files left by a pass\<close>

text \<open>
  Claim C6, as the code has it. For a maximum age of \<open>A\<close> days with \<open>A\<close> at most
  106751, so that the age in nanoseconds fits the 64 bits of a duration: the files
  marked for removal are those that the count rule marks, followed by every backup of
  the whole list whose timestamp is strictly before now minus \<open>A\<close> days, whatever the
  count rule marked. After a pass in which no removal is made to fail, no such backup
  is left at its path. The parser of timestamps is taken to accept no text that ends in
  the compressed suffix, as Go's does for this layout.
\<close>

theorem age_rule:
  assumes "0 < MaxAge r" and "MaxAge r \<le> 106751"
  shows "fst (marking r now fs) =
           countMarked r fs @ filter (\<lambda>f. timestamp f < now - MaxAge r * day_ns) fs \<and>
         (fst (oldLogFiles E r w) = Inr bs \<and>
          (\<forall>tr p. faults w tr (Remove p) = None) \<and>
          (\<forall>s. HasSuffix s compressSuffix \<longrightarrow> parseTime E s = None) \<longrightarrow>
          (\<forall>f \<in> set bs. timestamp f < clock w - MaxAge r * day_ns \<longrightarrow>
              lookup (snd (millRunOnce E r w)) (pathOf r f) = None))"
proof (intro conjI impI ballI)
  show "fst (marking r now fs) =
      countMarked r fs @ filter (\<lambda>f. timestamp f < now - MaxAge r * day_ns) fs"
    using assms by (simp add: marking_with_age cutOffOf_days)
next
  fix f
  assume h: "fst (oldLogFiles E r w) = Inr bs \<and>
      (\<forall>tr p. faults w tr (Remove p) = None) \<and>
      (\<forall>s. HasSuffix s compressSuffix \<longrightarrow> parseTime E s = None)"
    and f: "f \<in> set bs" and old: "timestamp f < clock w - MaxAge r * day_ns"
  define w1 where "w1 = snd (oldLogFiles E r w)"
  define remove where "remove = fst (marking r (clock w) bs)"
  define compress where "compress = snd (marking r (clock w) bs)"
  define w2 where "w2 = snd (removeEach (dir r) remove w1)"
  have listed: "fst (oldLogFiles E r w) = Inr bs"
    and strict: "\<forall>s. HasSuffix s compressSuffix \<longrightarrow> parseTime E s = None"
    using h by simp_all
  have guard: "\<not> (MaxSize r = 0 \<and> MaxAge r = 0 \<and> \<not> Compress r)"
    using assms by simp
  have fin: "snd (millRunOnce E r w) = snd (compressEach E (dir r) compress w2)"
    using millRunOnce_world[OF guard listed]
    by (simp add: w1_def remove_def compress_def w2_def)
  have "remove = countMarked r bs @
      filter (\<lambda>f. timestamp f < clock w - MaxAge r * day_ns) bs"
    using assms by (simp add: remove_def marking_with_age cutOffOf_days)
  then have fr: "f \<in> set remove"
    using f old by simp
  have nf: "\<forall>tr p. faults w1 tr (Remove p) = None"
    using h oldLogFiles_world[of E r w] by (simp add: w1_def)
  have gone: "lookup w2 (pathOf r f) = None"
    using removeEach_removes[OF nf fr, where d = "dir r"] by (simp add: w2_def pathOf_def)
  have "\<forall>g \<in> set compress.
      filepath_Clean (filepath_Join [dir r, Name g] @ compressSuffix) \<noteq>
      filepath_Clean (pathOf r f)"
  proof
    fix g assume "g \<in> set compress"
    then have g: "g \<in> set bs" "\<not> HasSuffix (Name g) compressSuffix"
        "\<not> timestamp g < clock w - MaxAge r * day_ns"
      using assms
      by (auto simp add: compress_def marking_with_age cutOffOf_days split: if_splits)
    have "timestamp f \<noteq> timestamp g"
      using g(3) old by auto
    from recognized_apart[OF listed strict g(1) g(2) f this]
    show "filepath_Clean (filepath_Join [dir r, Name g] @ compressSuffix) \<noteq>
        filepath_Clean (pathOf r f)"
      by (simp add: pathOf_def)
  qed
  then have "lookup (snd (compressEach E (dir r) compress w2)) (pathOf r f) =
      lookup w2 (pathOf r f)"
    by (rule compressEach_frame)
  then show "lookup (snd (millRunOnce E r w)) (pathOf r f) = None"
    by (simp add: fin gone)
qed

theorem age_rule_witness:
  "0 < MaxAge oneDayGzCfg \<and> MaxAge oneDayGzCfg \<le> 106751 \<and>
   fst (marking oneDayGzCfg jan3 [newBackup, oldBackup]) = [oldBackup] \<and>
   fst (oldLogFiles sampleEnv oneDayGzCfg logDisk) = Inr [newBackup, oldBackup] \<and>
   timestamp oldBackup < clock logDisk - MaxAge oneDayGzCfg * day_ns \<and>
   snd (marking oneDayGzCfg (clock logDisk) [newBackup, oldBackup]) = [newBackup] \<and>
   lookup (snd (millRunOnce sampleEnv oneDayGzCfg logDisk)) (pathOf oneDayGzCfg oldBackup) = None"
proof -
  have 1: "0 < MaxAge oneDayGzCfg" and 2: "MaxAge oneDayGzCfg \<le> 106751"
    by (simp_all add: oneDayGzCfg_def)
  have 3: "fst (oldLogFiles sampleEnv oneDayGzCfg logDisk) = Inr [newBackup, oldBackup]"
    by code_simp
  have 4: "\<forall>tr p. faults logDisk tr (Remove p) = None"
    by (simp add: logDisk_def)
  have 5: "snd (marking oneDayGzCfg (clock logDisk) [newBackup, oldBackup]) = [newBackup]"
    by code_simp
  have 6: "timestamp oldBackup < clock logDisk - MaxAge oneDayGzCfg * day_ns"
    by code_simp
  have 7: "\<forall>s. HasSuffix s compressSuffix \<longrightarrow> parseTime sampleEnv s = None"
    by (auto simp add: sampleEnv_def HasSuffix_def compressSuffix_def)
  have 8: "\<not> timestamp newBackup < clock logDisk - MaxAge oneDayGzCfg * day_ns"
    by code_simp
  have 9: "countMarked oneDayGzCfg [newBackup, oldBackup] = []"
    by code_simp
  have 10: "jan3 = clock logDisk"
    by (simp add: logDisk_def)
  show ?thesis
    using age_rule[OF 1 2, where E = sampleEnv and w = logDisk
        and bs = "[newBackup, oldBackup]" and now = jan3 and fs = "[newBackup, oldBackup]"]
      1 2 3 4 5 6 7 8 9
    by (simp add: 10)
qed

text \<open>
  Claim C6 as stated speaks of every maximum age. With 106752 days the age in
  nanoseconds is beyond 64 bits, the product wraps to a negative duration and the
  cutoff lies in the future: the backup of the day before, which is not older than now
  minus 106752 days, is marked for removal, and the pass removes both backups.
\<close>

theorem age_rule_counterexample:
  "MaxAge longAgeCfg = 106752 \<and>
   \<not> timestamp newBackup < jan3 - MaxAge longAgeCfg * day_ns \<and>
   fst (marking longAgeCfg jan3 [newBackup, oldBackup]) = [newBackup, oldBackup] \<and>
   fst (oldLogFiles sampleEnv longAgeCfg logDisk) = Inr [newBackup, oldBackup] \<and>
   clock logDisk = jan3 \<and>
   files (snd (millRunOnce sampleEnv longAgeCfg logDisk)) =
     [(''/var/log'', Directory), (''/var/log/app.log'', File ''hello'' 420)]"
  by code_simp

end
